theory Spec2Isabelle
  imports Complex_Main
begin

section \<open>lgtmgen: the command line object of \<^verbatim>\<open>cli.go\<close>\<close>

text \<open>
  \<^verbatim>\<open>Run\<close> parses the flags, loads the bundled mask image, lists the input directory and
  starts one goroutine per listed file; each goroutine overlays the mask on its file and
  saves the result under the output directory. \<^verbatim>\<open>Run\<close> waits on a
  \<^verbatim>\<open>sync.WaitGroup\<close> and returns an exit code.

  The model has two layers. The sequential prefix of \<^verbatim>\<open>Run\<close> (lines 54 to 113) is a
  function. The goroutines and the wait are a transition system: a state holds the local
  variables of \<^verbatim>\<open>Run\<close>, one record of local variables and a program label per goroutine,
  the file system and the two output streams; a step runs one thread up to its next
  call into the outside world. An execution is a list of thread choices.
\<close>

subsection \<open>Values of the Go program\<close>

text \<open>
  A Go \<^verbatim>\<open>error\<close> is the text its \<^verbatim>\<open>Error()\<close> method returns; a possibly nil \<^verbatim>\<open>error\<close>
  (or a possibly nil image) is an option, \<open>None\<close> for nil. A panic carries its message.
\<close>

type_synonym go_error = string
type_synonym go_panic = string

text \<open>\<^verbatim>\<open>os.FileInfo\<close>, as far as \<^verbatim>\<open>readImagePaths\<close> reads it: \<^verbatim>\<open>Name()\<close> and \<^verbatim>\<open>IsDir()\<close>.\<close>

record file_info =
  fi_Name :: string
  fi_IsDir :: bool

text \<open>
  The packages \<^verbatim>\<open>cli.go\<close> imports are parameters of the model, with the file system of type
  \<open>'fs\<close> and images of type \<open>'img\<close>:
  \<^item> \<open>Name\<close> and \<open>Version\<close>, package constants declared outside \<^verbatim>\<open>cli.go\<close>;
  \<^item> \<open>flags_Parse\<close>: \<^verbatim>\<open>flags.Parse\<close> on the flag set that \<^verbatim>\<open>Run\<close> defines (lines 64 to 76).
    It yields the values of the variables \<^verbatim>\<open>output\<close>, \<^verbatim>\<open>directory\<close>, \<^verbatim>\<open>force\<close> and
    \<^verbatim>\<open>version\<close>, or fails; with \<^verbatim>\<open>flag.ContinueOnError\<close> a failure has printed a message
    on the flag set's output, which is \<^verbatim>\<open>cli.errStream\<close>, and \<open>Inl\<close> carries that text;
  \<^item> \<open>images_Asset\<close> and \<open>image_Decode\<close>: the bundled assets and \<^verbatim>\<open>image.Decode\<close>;
  \<^item> \<open>ioutil_ReadDir\<close>, \<open>os_Stat\<close>, \<open>imaging_Open\<close>: reads of the file system;
  \<^item> \<open>imaging_OverlayCenter\<close>: the compositor, given the source image, the mask (nil when
    \<^verbatim>\<open>loadMaskImage\<close> returned a nil image) and the opacity;
  \<^item> \<open>imaging_Save\<close>: returns the error (nil on success) and the file system it leaves.
  Each of them returns; a panic inside a library is outside this model.
\<close>

record ('fs, 'img) env =
  Name :: string
  Version :: string
  flags_Parse :: "string list \<Rightarrow> string + (string \<times> string \<times> bool \<times> bool)"
  images_Asset :: "string \<Rightarrow> go_error + string"
  image_Decode :: "string \<Rightarrow> go_error + 'img"
  ioutil_ReadDir :: "'fs \<Rightarrow> string \<Rightarrow> go_error + file_info list"
  os_Stat :: "'fs \<Rightarrow> string \<Rightarrow> go_error option"
  imaging_Open :: "'fs \<Rightarrow> string \<Rightarrow> go_error + 'img"
  imaging_OverlayCenter :: "'img \<Rightarrow> 'img option \<Rightarrow> real \<Rightarrow> 'img"
  imaging_Save :: "'fs \<Rightarrow> 'img option \<Rightarrow> string \<Rightarrow> go_error option \<times> 'fs"

subsection \<open>Constants (lines 37 to 44)\<close>

definition MaskImage :: string where
  "MaskImage = ''images/lgtm_mask.png''"

text \<open>
  \<^verbatim>\<open>const ( ExitCodeOK int = 0; ExitCodeError int = 1 + iota )\<close>: inside a constant
  declaration \<^verbatim>\<open>iota\<close> is the index of the constant specification, counted from zero, so
  it is 1 on the second line.
\<close>

definition ExitCodeOK :: int where
  "ExitCodeOK = 0"

definition iota_of_ExitCodeError :: int where
  "iota_of_ExitCodeError = 1"

definition ExitCodeError :: int where
  "ExitCodeError = 1 + iota_of_ExitCodeError"

subsection \<open>Library functions on strings\<close>

text \<open>\<^verbatim>\<open>strings.HasSuffix(s, suffix)\<close>:
  \<^verbatim>\<open>len(s) >= len(suffix) && s[len(s)-len(suffix):] == suffix\<close>.\<close>

definition HasSuffix :: "string \<Rightarrow> string \<Rightarrow> bool" where
  "HasSuffix s suffix \<longleftrightarrow>
     length suffix \<le> length s \<and> drop (length s - length suffix) s = suffix"

definition IsPathSeparator :: "char \<Rightarrow> bool" where
  "IsPathSeparator c \<longleftrightarrow> c = CHR ''/''"

text \<open>
  \<^verbatim>\<open>filepath.Base\<close> on a system whose separator is the slash and whose volume names are
  empty: an empty path gives a dot; trailing separators are stripped; the result is what
  follows the last separator left, or one separator when nothing is left.
\<close>

definition filepath_Base :: "string \<Rightarrow> string" where
  "filepath_Base path =
     (if path = [] then ''.''
      else let stripped = rev (dropWhile IsPathSeparator (rev path));
               elem = rev (takeWhile (\<lambda>c. \<not> IsPathSeparator c) (rev stripped))
           in if elem = [] then ''/'' else elem)"

text \<open>
  The verb \<^verbatim>\<open>%s\<close> of package \<^verbatim>\<open>fmt\<close> applied to an \<^verbatim>\<open>error\<close>: the text of the error, and
  \<^verbatim>\<open>%!s(<nil>)\<close> for a nil one.
\<close>

definition fmt_s :: "go_error option \<Rightarrow> string" where
  "fmt_s e = (case e of None \<Rightarrow> ''%!s(<nil>)'' | Some msg \<Rightarrow> msg)"

subsection \<open>The helpers of \<^verbatim>\<open>cli.go\<close> (lines 152 to 217)\<close>

definition addDirectorySuffix :: "string \<Rightarrow> string" where
  "addDirectorySuffix directoryPath =
     (if HasSuffix directoryPath ''/'' then directoryPath else directoryPath @ ''/'')"

text \<open>
  \<^verbatim>\<open>loadMaskImage\<close> returns the pair \<^verbatim>\<open>(image.Image, error)\<close>. The error of
  \<^verbatim>\<open>image.Decode\<close> is assigned to the blank identifier (line 173), and the image that
  \<^verbatim>\<open>image.Decode\<close> returns with an error is nil.
\<close>

definition loadMaskImage :: "('fs, 'img) env \<Rightarrow> string \<Rightarrow> 'img option \<times> go_error option" where
  "loadMaskImage env maskImage =
     (case images_Asset env maskImage of
        Inl err \<Rightarrow> (None, Some err)
      | Inr imageByte \<Rightarrow>
          (case image_Decode env imageByte of
             Inl _ \<Rightarrow> (None, None)
           | Inr img \<Rightarrow> (Some img, None)))"

text \<open>\<^verbatim>\<open>readImagePaths\<close> panics with the error of \<^verbatim>\<open>ioutil.ReadDir\<close> (line 181).\<close>

definition readImagePaths :: "('fs, 'img) env \<Rightarrow> 'fs \<Rightarrow> string \<Rightarrow> go_panic + string list" where
  "readImagePaths env fs target =
     (case ioutil_ReadDir env fs target of
        Inl err \<Rightarrow> Inl err
      | Inr files \<Rightarrow>
          Inr (map (\<lambda>fileInfo. target @ fi_Name fileInfo)
                 (filter (\<lambda>fileInfo. \<not> fi_IsDir fileInfo) files)))"

definition overlayImage ::
  "('fs, 'img) env \<Rightarrow> 'fs \<Rightarrow> string \<Rightarrow> 'img option \<Rightarrow> 'img option \<times> go_error option" where
  "overlayImage env fs file maskImage =
     (case imaging_Open env fs file of
        Inl err \<Rightarrow> (None, Some err)
      | Inr srcImage \<Rightarrow> (Some (imaging_OverlayCenter env srcImage maskImage 1.0), None))"

definition existFile :: "('fs, 'img) env \<Rightarrow> 'fs \<Rightarrow> string \<Rightarrow> bool" where
  "existFile env fs filename \<longleftrightarrow> os_Stat env fs filename = None"

subsection \<open>The state of \<^verbatim>\<open>Run\<close> and of its goroutines\<close>

text \<open>
  A goroutine is the closure of lines 119 to 145 applied to one \<^verbatim>\<open>filePath\<close>: its local
  variables, with the zero values of Go before they are assigned, and the label of the
  line it executes next. The labels are source lines: 122 \<^verbatim>\<open>overlayImage\<close>, 124 the line
  printed for \<^verbatim>\<open>mask_err\<close>, 135 the test of \<^verbatim>\<open>existFile\<close>, 136 the line printed for an
  existing file, 139 \<^verbatim>\<open>imaging.Save\<close>, 141 the line printed for \<^verbatim>\<open>save_err\<close>, 144 the line
  printed on success, 120 the deferred \<^verbatim>\<open>wg.Done()\<close>.
\<close>

datatype label = L122 | L124 | L135 | L136 | L139 | L141 | L144 | L120 | Finished

record 'img goroutine =
  filePath :: string
  pc :: label
  maskedImage :: "'img option"
  mask_err :: "go_error option"
  outputFilePath :: string
  save_err :: "go_error option"

text \<open>
  The state of \<^verbatim>\<open>Run\<close> from line 116 on: the variables the closures capture
  (\<^verbatim>\<open>output\<close> as \<open>output_dir\<close>, \<^verbatim>\<open>force\<close>, \<^verbatim>\<open>maskImage\<close>), the elements of \<^verbatim>\<open>filePaths\<close> that the
  \<^verbatim>\<open>range\<close> loop has not visited, the goroutines started so far, the counter of the
  \<^verbatim>\<open>WaitGroup\<close>, the file system, what has been written to \<^verbatim>\<open>cli.errStream\<close> and to
  \<^verbatim>\<open>os.Stdout\<close> (one element per call of \<^verbatim>\<open>Fprintf\<close> or \<^verbatim>\<open>Printf\<close>), and the exit code
  once \<^verbatim>\<open>Run\<close> has returned.
\<close>

record ('fs, 'img) state =
  output_dir :: string
  force :: bool
  maskImage :: "'img option"
  unvisited :: "string list"
  goroutines :: "'img goroutine list"
  wg :: int
  fs :: 'fs
  errStream :: "string list"
  stdout :: "string list"
  returned :: "int option"

subsection \<open>The sequential prefix of \<^verbatim>\<open>Run\<close> (lines 54 to 113)\<close>

text \<open>A \<^verbatim>\<open>return\<close> of \<^verbatim>\<open>Run\<close> before line 116: nothing was started.\<close>

definition early_return :: "'fs \<Rightarrow> string list \<Rightarrow> int \<Rightarrow> ('fs, 'img) state" where
  "early_return fs0 written code =
     \<lparr>output_dir = [], force = False, maskImage = None, unvisited = [], goroutines = [],
      wg = 0, fs = fs0, errStream = written, stdout = [], returned = Some code\<rparr>"

text \<open>
  Lines 54 to 113. \<^verbatim>\<open>args[1:]\<close> panics on an empty slice. The result is the panic, or the
  state at an early \<^verbatim>\<open>return\<close>, or the state in which the \<^verbatim>\<open>range\<close> loop starts.
\<close>

definition Run_prefix :: "('fs, 'img) env \<Rightarrow> 'fs \<Rightarrow> string list \<Rightarrow> go_panic + ('fs, 'img) state" where
  "Run_prefix env fs0 args =
     (case args of
        [] \<Rightarrow> Inl ''runtime error: slice bounds out of range [1:0]''
      | _ # flag_args \<Rightarrow>
          (case flags_Parse env flag_args of
             Inl printed \<Rightarrow> Inr (early_return fs0 [printed] ExitCodeError)
           | Inr (output_flag, directory_flag, force_flag, version_flag) \<Rightarrow>
               if version_flag then
                 Inr (early_return fs0
                        [Name env @ '' version '' @ Version env @ ''\<newline>''] ExitCodeOK)
               else if directory_flag = [] then
                 Inr (early_return fs0 [''input directory path is required.\<newline>''] ExitCodeError)
               else if output_flag = [] then
                 Inr (early_return fs0 [''output directory path is required.\<newline>''] ExitCodeError)
               else
                 (case loadMaskImage env MaskImage of
                    (_, Some err) \<Rightarrow>
                      Inr (early_return fs0 [''fatal error '' @ err @ ''.\<newline>''] ExitCodeError)
                  | (img, None) \<Rightarrow>
                      (case readImagePaths env fs0 (addDirectorySuffix directory_flag) of
                         Inl p \<Rightarrow> Inl p
                       | Inr filePaths \<Rightarrow>
                           Inr \<lparr>output_dir = addDirectorySuffix output_flag, force = force_flag,
                                maskImage = img, unvisited = filePaths, goroutines = [],
                                wg = 0, fs = fs0, errStream = [], stdout = [],
                                returned = None\<rparr>))))"

subsection \<open>The goroutines and the wait (lines 116 to 149)\<close>

definition go_func :: "string \<Rightarrow> 'img goroutine" where
  "go_func p =
     \<lparr>filePath = p, pc = L122, maskedImage = None, mask_err = None,
      outputFilePath = [], save_err = None\<rparr>"

text \<open>
  One step of a goroutine: from its label to the next call that reads or writes the file
  system, a stream or the \<^verbatim>\<open>WaitGroup\<close>. Line 141 prints \<^verbatim>\<open>mask_err\<close>, as the source does.
\<close>

definition goroutine_step ::
  "('fs, 'img) env \<Rightarrow> ('fs, 'img) state \<Rightarrow> 'img goroutine
     \<Rightarrow> ('img goroutine \<times> ('fs, 'img) state) option" where
  "goroutine_step env s g =
     (case pc g of
        L122 \<Rightarrow>
          (case overlayImage env (fs s) (filePath g) (maskImage s) of
             (img, err) \<Rightarrow>
               if err \<noteq> None then Some (g\<lparr>maskedImage := img, mask_err := err, pc := L124\<rparr>, s)
               else Some (g\<lparr>maskedImage := img, mask_err := err,
                             outputFilePath := output_dir s @ filepath_Base (filePath g),
                             pc := L135\<rparr>, s))
      | L124 \<Rightarrow>
          Some (g\<lparr>pc := L120\<rparr>,
                s\<lparr>errStream := errStream s @
                    [''['' @ fmt_s (mask_err g) @ ''] '' @ filePath g @ ''\<newline>'']\<rparr>)
      | L135 \<Rightarrow>
          Some (g\<lparr>pc := (if existFile env (fs s) (outputFilePath g) \<and> \<not> force s
                          then L136 else L139)\<rparr>, s)
      | L136 \<Rightarrow>
          Some (g\<lparr>pc := L120\<rparr>,
                s\<lparr>errStream := errStream s @
                    [''[already exists] '' @ outputFilePath g @ ''\<newline>'']\<rparr>)
      | L139 \<Rightarrow>
          (case imaging_Save env (fs s) (maskedImage g) (outputFilePath g) of
             (err, fs') \<Rightarrow>
               Some (g\<lparr>save_err := err, pc := (if err \<noteq> None then L141 else L144)\<rparr>,
                     s\<lparr>fs := fs'\<rparr>))
      | L141 \<Rightarrow>
          Some (g\<lparr>pc := L120\<rparr>,
                s\<lparr>errStream := errStream s @
                    [''['' @ fmt_s (mask_err g) @ ''] '' @ filePath g @ ''\<newline>'']\<rparr>)
      | L144 \<Rightarrow>
          Some (g\<lparr>pc := L120\<rparr>,
                s\<lparr>stdout := stdout s @ [''[success] '' @ outputFilePath g @ ''\<newline>'']\<rparr>)
      | L120 \<Rightarrow> Some (g\<lparr>pc := Finished\<rparr>, s\<lparr>wg := wg s - 1\<rparr>)
      | Finished \<Rightarrow> None)"

text \<open>
  A step of the whole program runs one thread. The main thread, in the loop, executes
  \<^verbatim>\<open>wg.Add(1)\<close> and the \<^verbatim>\<open>go\<close> statement for the next path; after the loop it is in
  \<^verbatim>\<open>wg.Wait()\<close>, which returns only when the counter is zero, and then \<^verbatim>\<open>Run\<close> returns
  \<^verbatim>\<open>ExitCodeOK\<close>. A thread that cannot move gives \<open>None\<close>.
\<close>

datatype thread = Main | Goroutine nat

definition step :: "('fs, 'img) env \<Rightarrow> thread \<Rightarrow> ('fs, 'img) state \<Rightarrow> ('fs, 'img) state option" where
  "step env th s =
     (case th of
        Main \<Rightarrow>
          if returned s \<noteq> None then None
          else (case unvisited s of
                  p # rest \<Rightarrow>
                    Some (s\<lparr>unvisited := rest, wg := wg s + 1,
                            goroutines := goroutines s @ [go_func p]\<rparr>)
                | [] \<Rightarrow> if wg s = 0 then Some (s\<lparr>returned := Some ExitCodeOK\<rparr>) else None)
      | Goroutine i \<Rightarrow>
          if i < length (goroutines s) then
            (case goroutine_step env s (goroutines s ! i) of
               None \<Rightarrow> None
             | Some (g', s') \<Rightarrow> Some (s'\<lparr>goroutines := (goroutines s)[i := g']\<rparr>))
          else None)"

text \<open>An execution follows a list of thread choices; it is \<open>None\<close> when a chosen thread
  cannot move.\<close>

fun exec :: "('fs, 'img) env \<Rightarrow> thread list \<Rightarrow> ('fs, 'img) state \<Rightarrow> ('fs, 'img) state option" where
  "exec env [] s = Some s"
| "exec env (th # ths) s = (case step env th s of None \<Rightarrow> None | Some s' \<Rightarrow> exec env ths s')"

text \<open>
  \<^verbatim>\<open>Run\<close> under a schedule: the prefix, then the execution the schedule describes. The
  result is the panic of the prefix, or the state reached; \<^verbatim>\<open>Run\<close> has returned in a state
  whose field \<open>returned\<close> holds the exit code.
\<close>

definition Run ::
  "('fs, 'img) env \<Rightarrow> 'fs \<Rightarrow> thread list \<Rightarrow> string list
     \<Rightarrow> (go_panic + ('fs, 'img) state) option" where
  "Run env fs0 sched args =
     (case Run_prefix env fs0 args of
        Inl p \<Rightarrow> if sched = [] then Some (Inl p) else None
      | Inr s \<Rightarrow> map_option Inr (exec env sched s))"

text \<open>A state is final when no thread can move.\<close>

definition final :: "('fs, 'img) env \<Rightarrow> ('fs, 'img) state \<Rightarrow> bool" where
  "final env s \<longleftrightarrow>
     step env Main s = None \<and> (\<forall>i < length (goroutines s). step env (Goroutine i) s = None)"

subsection \<open>Invariants of the transition system\<close>

text \<open>
  The number of goroutines that have not executed their \<^verbatim>\<open>wg.Done()\<close>; an upper bound of
  the steps a goroutine has left at each label, and of the steps the whole program has
  left; the destination a goroutine has computed; and the invariant of the states reached
  from \<open>s0\<close>, the state in which the loop starts: the captured variables do not change,
  the paths are started in order, the counter of the \<^verbatim>\<open>WaitGroup\<close> is the number of
  running goroutines, and \<^verbatim>\<open>Run\<close> has returned only with the counter at zero.
\<close>

definition running :: "'img goroutine list \<Rightarrow> nat" where
  "running gs = length (filter (\<lambda>g. pc g \<noteq> Finished) gs)"

fun steps_left :: "label \<Rightarrow> nat" where
  "steps_left L122 = 5"
| "steps_left L124 = 2"
| "steps_left L135 = 4"
| "steps_left L136 = 2"
| "steps_left L139 = 3"
| "steps_left L141 = 2"
| "steps_left L144 = 2"
| "steps_left L120 = 1"
| "steps_left Finished = 0"

definition budget :: "('fs, 'img) state \<Rightarrow> nat" where
  "budget s =
     6 * length (unvisited s) + sum_list (map (\<lambda>g. steps_left (pc g)) (goroutines s))
       + (if returned s = None then 1 else 0)"

definition dest_ok :: "string \<Rightarrow> 'img goroutine \<Rightarrow> bool" where
  "dest_ok out g \<longleftrightarrow>
     (pc g = L122 \<or> mask_err g \<noteq> None \<or> outputFilePath g = out @ filepath_Base (filePath g))"

definition run_inv :: "('fs, 'img) state \<Rightarrow> ('fs, 'img) state \<Rightarrow> bool" where
  "run_inv s0 s \<longleftrightarrow>
     output_dir s = output_dir s0 \<and> force s = force s0 \<and> maskImage s = maskImage s0 \<and>
     map filePath (goroutines s) @ unvisited s = unvisited s0 \<and>
     wg s = int (running (goroutines s)) \<and>
     (returned s = None \<or> (returned s = Some ExitCodeOK \<and> unvisited s = [] \<and> wg s = 0)) \<and>
     list_all (dest_ok (output_dir s0)) (goroutines s)"

subsection \<open>A concrete world\<close>

text \<open>
  A small instance of the parameters, on which the functions above are evaluated. Images
  are strings; an image file holds \<^verbatim>\<open>PNG:\<close> followed by the image. A file system is a
  list of regular files with their contents, and a list of paths that the operating system
  refuses to \<^verbatim>\<open>stat\<close> or open (permission denied).

  \<open>go_flag_Parse\<close> follows \<^verbatim>\<open>FlagSet.Parse\<close> of package \<^verbatim>\<open>flag\<close> on the seven flags of lines
  67 to 76: parsing stops at the first argument that is not a flag or after \<^verbatim>\<open>--\<close>; a
  flag has one or two minus signs and an optional \<^verbatim>\<open>=value\<close>; a string flag without
  \<^verbatim>\<open>=value\<close> takes the next argument; a boolean flag without it is set to true. Of the
  text a failure prints, only the first line is kept.
\<close>

definition ParseBool :: "string \<Rightarrow> bool option" where
  "ParseBool str =
     (if str \<in> set [''1'', ''t'', ''T'', ''TRUE'', ''true'', ''True''] then Some True
      else if str \<in> set [''0'', ''f'', ''F'', ''FALSE'', ''false'', ''False''] then Some False
      else None)"

fun go_flag_parse ::
  "string \<times> string \<times> bool \<times> bool \<Rightarrow> string list
     \<Rightarrow> string + (string \<times> string \<times> bool \<times> bool)" where
  "go_flag_parse vars [] = Inr vars"
| "go_flag_parse (out, dir, frc, ver) (s # args) =
     (if length s < 2 \<or> hd s \<noteq> CHR ''-'' then Inr (out, dir, frc, ver)
      else if s = ''--'' then Inr (out, dir, frc, ver)
      else
        let body = (if s ! 1 = CHR ''-'' then drop 2 s else drop 1 s) in
        if body = [] \<or> hd body = CHR ''-'' \<or> hd body = CHR ''='' then
          Inl (''bad flag syntax: '' @ s)
        else
          let name = hd body # takeWhile (\<lambda>c. c \<noteq> CHR ''='') (tl body);
              hasValue = (CHR ''='' \<in> set (tl body));
              val = drop 1 (dropWhile (\<lambda>c. c \<noteq> CHR ''='') (tl body))
          in
          if name \<in> set [''output'', ''o'', ''directory'', ''d''] then
            (if hasValue then
               (if name \<in> set [''output'', ''o''] then go_flag_parse (val, dir, frc, ver) args
                else go_flag_parse (out, val, frc, ver) args)
             else
               (case args of
                  [] \<Rightarrow> Inl (''flag needs an argument: -'' @ name)
                | v # rest \<Rightarrow>
                    if name \<in> set [''output'', ''o''] then go_flag_parse (v, dir, frc, ver) rest
                    else go_flag_parse (out, v, frc, ver) rest))
          else if name \<in> set [''force'', ''f'', ''version''] then
            (case (if hasValue then ParseBool val else Some True) of
               None \<Rightarrow> Inl (''invalid boolean value for -'' @ name)
             | Some b \<Rightarrow>
                 if name = ''version'' then go_flag_parse (out, dir, frc, b) args
                 else go_flag_parse (out, dir, b, ver) args)
          else if name \<in> set [''help'', ''h''] then Inl ''flag: help requested''
          else Inl (''flag provided but not defined: -'' @ name))"

definition go_flag_Parse :: "string list \<Rightarrow> string + (string \<times> string \<times> bool \<times> bool)" where
  "go_flag_Parse args = go_flag_parse ([], [], False, False) args"

record dfs =
  dfs_files :: "(string \<times> string) list"
  dfs_denied :: "string list"

definition d_Asset :: "string \<Rightarrow> go_error + string" where
  "d_Asset name =
     (if name = ''images/lgtm_mask.png'' then Inr ''PNG:LGTM''
      else Inl (''Asset '' @ name @ '' not found''))"

definition d_Decode :: "string \<Rightarrow> go_error + string" where
  "d_Decode bytes =
     (if take 4 bytes = ''PNG:'' then Inr (drop 4 bytes) else Inl ''image: unknown format'')"

text \<open>The entries of a directory: the files directly below it, and one directory entry
  for each first segment of a longer path below it.\<close>

definition d_entry :: "string \<Rightarrow> file_info" where
  "d_entry rest =
     (if CHR ''/'' \<in> set rest
      then \<lparr>fi_Name = takeWhile (\<lambda>c. c \<noteq> CHR ''/'') rest, fi_IsDir = True\<rparr>
      else \<lparr>fi_Name = rest, fi_IsDir = False\<rparr>)"

definition d_ReadDir :: "dfs \<Rightarrow> string \<Rightarrow> go_error + file_info list" where
  "d_ReadDir d dir =
     (let below = filter (\<lambda>p. take (length dir) p = dir) (map fst (dfs_files d))
      in if below = [] \<or> dir \<in> set (dfs_denied d)
         then Inl (''open '' @ dir @ '': cannot read directory'')
         else Inr (remdups (map (\<lambda>p. d_entry (drop (length dir) p)) below)))"

definition d_Stat :: "dfs \<Rightarrow> string \<Rightarrow> go_error option" where
  "d_Stat d p =
     (if p \<in> set (dfs_denied d) then Some (''stat '' @ p @ '': permission denied'')
      else if map_of (dfs_files d) p = None
      then Some (''stat '' @ p @ '': no such file or directory'')
      else None)"

definition d_Open :: "dfs \<Rightarrow> string \<Rightarrow> go_error + string" where
  "d_Open d p =
     (if p \<in> set (dfs_denied d) then Inl (''open '' @ p @ '': permission denied'')
      else case map_of (dfs_files d) p of
             None \<Rightarrow> Inl (''open '' @ p @ '': no such file or directory'')
           | Some bytes \<Rightarrow> d_Decode bytes)"

definition d_OverlayCenter :: "string \<Rightarrow> string option \<Rightarrow> real \<Rightarrow> string" where
  "d_OverlayCenter src m opacity = src @ ''+'' @ (case m of None \<Rightarrow> ''nil'' | Some t \<Rightarrow> t)"

text \<open>\<^verbatim>\<open>imaging.Save\<close> chooses the format by the extension of the file name and fails, before
  it creates the file, on an extension it does not know.\<close>

definition d_Save :: "dfs \<Rightarrow> string option \<Rightarrow> string \<Rightarrow> go_error option \<times> dfs" where
  "d_Save d img p =
     (if \<not> (HasSuffix p ''.png'' \<or> HasSuffix p ''.jpg'' \<or> HasSuffix p ''.gif'')
      then (Some ''imaging: unsupported image format'', d)
      else if p \<in> set (dfs_denied d) then (Some (''open '' @ p @ '': permission denied''), d)
      else case img of
             None \<Rightarrow> (Some ''imaging: nil image'', d)
           | Some i \<Rightarrow>
               (None, d\<lparr>dfs_files :=
                          filter (\<lambda>(q, _). q \<noteq> p) (dfs_files d) @ [(p, ''PNG:'' @ i)]\<rparr>))"

definition d_env :: "(dfs, string) env" where
  "d_env =
     \<lparr>Name = ''lgtmgen'', Version = ''0.1.0'', flags_Parse = go_flag_Parse,
      images_Asset = d_Asset, image_Decode = d_Decode, ioutil_ReadDir = d_ReadDir,
      os_Stat = d_Stat, imaging_Open = d_Open, imaging_OverlayCenter = d_OverlayCenter,
      imaging_Save = d_Save\<rparr>"

text \<open>The scenario of the specification: a valid image, a valid image whose output
  exists, a file that is no image, and a subdirectory.\<close>

definition d_fs :: dfs where
  "d_fs =
     \<lparr>dfs_files =
        [(''in/a.png'', ''PNG:A''), (''in/b.png'', ''PNG:B''), (''in/c.txt'', ''hello''),
         (''in/sub/d.png'', ''PNG:D''), (''out/b.png'', ''PNG:old'')],
      dfs_denied = []\<rparr>"

text \<open>
  Variants of the world: the bundled asset is missing; the bundled asset is present but
  is no image; a directory with an image whose name has an extension \<^verbatim>\<open>imaging.Save\<close>
  does not know; a directory with a file named like an image that is none; an output file
  that exists and cannot be inspected.
\<close>

definition d_env_no_asset :: "(dfs, string) env" where
  "d_env_no_asset = d_env\<lparr>images_Asset := (\<lambda>name. Inl (''Asset '' @ name @ '' not found''))\<rparr>"

definition d_env_corrupt :: "(dfs, string) env" where
  "d_env_corrupt = d_env\<lparr>images_Asset := (\<lambda>name. Inr ''<html>no image</html>'')\<rparr>"

definition d_fs_photo :: dfs where
  "d_fs_photo = \<lparr>dfs_files = [(''in/photo.dat'', ''PNG:P'')], dfs_denied = []\<rparr>"


definition d_fs_denied :: dfs where
  "d_fs_denied =
     \<lparr>dfs_files = [(''in/a.png'', ''PNG:A''), (''out/a.png'', ''PNG:old'')],
      dfs_denied = [''out/a.png'']\<rparr>"

text \<open>
  The arguments of the scenario, the state in which its loop starts, the state after the
  loop with the three goroutines started and none run, one of its schedules with the state
  it ends in, and the state of the denied output file when its goroutine is at the test of
  \<^verbatim>\<open>existFile\<close>.
\<close>

definition d_args :: "string list" where
  "d_args = [''lgtmgen'', ''-d'', ''in'', ''-o'', ''out'']"

definition d_loop_start :: "(dfs, string) state" where
  "d_loop_start =
     \<lparr>output_dir = ''out/'', force = False, maskImage = Some ''LGTM'',
      unvisited = [''in/a.png'', ''in/b.png'', ''in/c.txt''], goroutines = [],
      wg = 0, fs = d_fs, errStream = [], stdout = [], returned = None\<rparr>"

definition d_started :: "(dfs, string) state" where
  "d_started =
     \<lparr>output_dir = ''out/'', force = False, maskImage = Some ''LGTM'', unvisited = [],
      goroutines = [go_func ''in/a.png'', go_func ''in/b.png'', go_func ''in/c.txt''],
      wg = 3, fs = d_fs, errStream = [], stdout = [], returned = None\<rparr>"

definition d_schedule :: "thread list" where
  "d_schedule =
     [Main, Main, Goroutine 1, Main, Goroutine 0, Goroutine 2, Goroutine 1, Goroutine 0,
      Goroutine 2, Goroutine 2, Goroutine 0, Goroutine 1, Goroutine 0, Goroutine 1,
      Goroutine 0, Main]"

definition d_finished :: "(dfs, string) state" where
  "d_finished =
     \<lparr>output_dir = ''out/'', force = False, maskImage = Some ''LGTM'', unvisited = [],
      goroutines =
        [\<lparr>filePath = ''in/a.png'', pc = Finished, maskedImage = Some ''A+LGTM'',
          mask_err = None, outputFilePath = ''out/a.png'', save_err = None\<rparr>,
         \<lparr>filePath = ''in/b.png'', pc = Finished, maskedImage = Some ''B+LGTM'',
          mask_err = None, outputFilePath = ''out/b.png'', save_err = None\<rparr>,
         \<lparr>filePath = ''in/c.txt'', pc = Finished, maskedImage = None,
          mask_err = Some ''image: unknown format'', outputFilePath = [], save_err = None\<rparr>],
      wg = 0,
      fs = \<lparr>dfs_files =
              [(''in/a.png'', ''PNG:A''), (''in/b.png'', ''PNG:B''), (''in/c.txt'', ''hello''),
               (''in/sub/d.png'', ''PNG:D''), (''out/b.png'', ''PNG:old''),
               (''out/a.png'', ''PNG:A+LGTM'')],
            dfs_denied = []\<rparr>,
      errStream =
        [''[image: unknown format] in/c.txt\<newline>'', ''[already exists] out/b.png\<newline>''],
      stdout = [''[success] out/a.png\<newline>''], returned = Some 0\<rparr>"

definition d_at_guard :: "(dfs, string) state" where
  "d_at_guard =
     \<lparr>output_dir = ''out/'', force = False, maskImage = Some ''LGTM'', unvisited = [],
      goroutines =
        [\<lparr>filePath = ''in/a.png'', pc = L135, maskedImage = Some ''A+LGTM'',
          mask_err = None, outputFilePath = ''out/a.png'', save_err = None\<rparr>],
      wg = 1, fs = d_fs_denied, errStream = [], stdout = [], returned = None\<rparr>"

subsection \<open>Files as a map, and what a run leaves in them\<close>

text \<open>
  Modelled from the spec: the file system and the two library calls that touch files,
  \<^verbatim>\<open>imaging.Open\<close> and \<^verbatim>\<open>imaging.Save\<close>, which are not part of \<^verbatim>\<open>cli.go\<close>. A file system
  is a map from paths to contents. The compositor opens and decodes the file at its
  source path, so \<^verbatim>\<open>imaging.Open\<close> depends on the content of that file only. The output
  writer encodes the image in a format inferred from the destination path and writes it,
  creating or overwriting the file: \<^verbatim>\<open>imaging.Save\<close> either fails and leaves the files as
  they are, or stores at the destination the bytes \<open>encode\<close> gives for the image and the
  path.
\<close>

type_synonym file_map = "string \<Rightarrow> string option"

definition file_library ::
  "(file_map, 'img) env \<Rightarrow> ('img option \<Rightarrow> string \<Rightarrow> go_error + string) \<Rightarrow> bool" where
  "file_library env encode \<longleftrightarrow>
     (\<forall>f f' p. f p = f' p \<longrightarrow> imaging_Open env f p = imaging_Open env f' p) \<and>
     (\<forall>f img q. imaging_Save env f img q =
        (case encode img q of Inl err \<Rightarrow> (Some err, f) | Inr b \<Rightarrow> (None, f(q \<mapsto> b))))"

text \<open>
  The bytes that the goroutine of source path \<open>p\<close> stores at its destination when \<^verbatim>\<open>Run\<close>
  starts in the files \<open>f0\<close> with \<^verbatim>\<open>force\<close> set, if it stores any; a goroutine has
  \<open>wrote\<close> when it is past its call of \<^verbatim>\<open>imaging.Save\<close>. The invariant of a forced run:
  no goroutine is on the branch of an existing file; what a goroutine holds after
  \<^verbatim>\<open>overlayImage\<close> is what \<^verbatim>\<open>overlayImage\<close> gives in \<open>f0\<close>; the file at the destination of a
  goroutine that wrote holds its bytes; every other file is as in \<open>f0\<close>. The paths of a
  listing are \<open>paths_ok\<close> when they are distinct, have distinct destinations, and none is
  the destination of another.
\<close>

definition written_bytes ::
  "(file_map, 'img) env \<Rightarrow> ('img option \<Rightarrow> string \<Rightarrow> go_error + string) \<Rightarrow> file_map
     \<Rightarrow> 'img option \<Rightarrow> string \<Rightarrow> string \<Rightarrow> string option" where
  "written_bytes env encode f0 m out p =
     (case overlayImage env f0 p m of
        (img, Some err) \<Rightarrow> None
      | (img, None) \<Rightarrow>
          (case encode img (out @ filepath_Base p) of Inl err \<Rightarrow> None | Inr b \<Rightarrow> Some b))"

definition wrote :: "'img goroutine \<Rightarrow> bool" where
  "wrote g \<longleftrightarrow> pc g \<in> {L141, L144, L120, Finished} \<and> mask_err g = None"

definition sane :: "(file_map, 'img) env \<Rightarrow> file_map \<Rightarrow> 'img option \<Rightarrow> 'img goroutine \<Rightarrow> bool" where
  "sane env f0 m g \<longleftrightarrow>
     pc g \<noteq> L136 \<and> (pc g = L124 \<longrightarrow> mask_err g \<noteq> None) \<and>
     (pc g \<in> {L135, L139, L141, L144} \<longrightarrow> mask_err g = None) \<and>
     (pc g \<noteq> L122 \<longrightarrow> (maskedImage g, mask_err g) = overlayImage env f0 (filePath g) m)"

definition files_inv ::
  "(file_map, 'img) env \<Rightarrow> ('img option \<Rightarrow> string \<Rightarrow> go_error + string) \<Rightarrow> file_map
     \<Rightarrow> 'img option \<Rightarrow> string \<Rightarrow> 'img goroutine list \<Rightarrow> file_map \<Rightarrow> bool" where
  "files_inv env encode f0 m out gs f \<longleftrightarrow>
     (\<forall>j < length gs.
        sane env f0 m (gs ! j) \<and>
        (wrote (gs ! j) \<longrightarrow>
           (\<forall>b. written_bytes env encode f0 m out (filePath (gs ! j)) = Some b \<longrightarrow>
                f (out @ filepath_Base (filePath (gs ! j))) = Some b))) \<and>
     (\<forall>q. (\<forall>j < length gs.
              wrote (gs ! j) \<longrightarrow>
              written_bytes env encode f0 m out (filePath (gs ! j)) \<noteq> None \<longrightarrow>
              out @ filepath_Base (filePath (gs ! j)) \<noteq> q) \<longrightarrow>
          f q = f0 q)"

definition idem_inv ::
  "(file_map, 'img) env \<Rightarrow> ('img option \<Rightarrow> string \<Rightarrow> go_error + string) \<Rightarrow> file_map
     \<Rightarrow> (file_map, 'img) state \<Rightarrow> bool" where
  "idem_inv env encode f0 s \<longleftrightarrow>
     force s \<and> files_inv env encode f0 (maskImage s) (output_dir s) (goroutines s) (fs s)"

definition paths_ok :: "string \<Rightarrow> string list \<Rightarrow> bool" where
  "paths_ok out P \<longleftrightarrow>
     distinct P \<and>
     (\<forall>p \<in> set P. \<forall>p' \<in> set P. out @ filepath_Base p' = p \<longrightarrow> p' = p) \<and>
     (\<forall>p \<in> set P. \<forall>p' \<in> set P. out @ filepath_Base p' = out @ filepath_Base p \<longrightarrow> p' = p)"

text \<open>
  A world on file maps, with two images in the input directory, and two schedules of a
  forced run with the states they end in: the second run starts in the files the first one
  left.
\<close>

definition m_encode :: "string option \<Rightarrow> string \<Rightarrow> go_error + string" where
  "m_encode img q =
     (case img of
        None \<Rightarrow> Inl ''imaging: nil image''
      | Some i \<Rightarrow>
          if HasSuffix q ''.png'' \<or> HasSuffix q ''.jpg'' \<or> HasSuffix q ''.gif''
          then Inr (''PNG:'' @ i) else Inl ''imaging: unsupported image format'')"

definition m_env :: "(file_map, string) env" where
  "m_env =
     \<lparr>Name = ''lgtmgen'', Version = ''0.1.0'', flags_Parse = go_flag_Parse,
      images_Asset = d_Asset, image_Decode = d_Decode,
      ioutil_ReadDir =
        (\<lambda>f dir. if dir = ''in/''
                  then Inr [\<lparr>fi_Name = ''a.png'', fi_IsDir = False\<rparr>,
                            \<lparr>fi_Name = ''b.png'', fi_IsDir = False\<rparr>,
                            \<lparr>fi_Name = ''sub'', fi_IsDir = True\<rparr>]
                  else Inl (''open '' @ dir @ '': cannot read directory'')),
      os_Stat =
        (\<lambda>f p. case f p of
                  None \<Rightarrow> Some (''stat '' @ p @ '': no such file or directory'')
                | Some bytes \<Rightarrow> None),
      imaging_Open =
        (\<lambda>f p. case f p of
                  None \<Rightarrow> Inl (''open '' @ p @ '': no such file or directory'')
                | Some bytes \<Rightarrow> d_Decode bytes),
      imaging_OverlayCenter = d_OverlayCenter,
      imaging_Save =
        (\<lambda>f img q. case m_encode img q of
                      Inl err \<Rightarrow> (Some err, f)
                    | Inr b \<Rightarrow> (None, f(q \<mapsto> b)))\<rparr>"

definition m_fs :: file_map where
  "m_fs = [''in/a.png'' \<mapsto> ''PNG:A'', ''in/b.png'' \<mapsto> ''PNG:B'']"

definition m_args :: "string list" where
  "m_args = [''lgtmgen'', ''-d'', ''in'', ''-o'', ''out'', ''-f'']"

definition m_schedule1 :: "thread list" where
  "m_schedule1 =
     [Main, Main, Goroutine 0, Goroutine 0, Goroutine 0, Goroutine 0, Goroutine 0,
      Goroutine 1, Goroutine 1, Goroutine 1, Goroutine 1, Goroutine 1, Main]"

definition m_schedule2 :: "thread list" where
  "m_schedule2 =
     [Main, Goroutine 0, Main, Goroutine 1, Goroutine 0, Goroutine 1, Goroutine 1,
      Goroutine 1, Goroutine 0, Goroutine 0, Goroutine 1, Goroutine 0, Main]"

definition m_once :: "(file_map, string) state" where
  "m_once =
     \<lparr>output_dir = ''out/'', force = True, maskImage = Some ''LGTM'', unvisited = [],
      goroutines =
        [\<lparr>filePath = ''in/a.png'', pc = Finished, maskedImage = Some ''A+LGTM'',
          mask_err = None, outputFilePath = ''out/a.png'', save_err = None\<rparr>,
         \<lparr>filePath = ''in/b.png'', pc = Finished, maskedImage = Some ''B+LGTM'',
          mask_err = None, outputFilePath = ''out/b.png'', save_err = None\<rparr>],
      wg = 0,
      fs = [''in/a.png'' \<mapsto> ''PNG:A'', ''in/b.png'' \<mapsto> ''PNG:B'',
            ''out/a.png'' \<mapsto> ''PNG:A+LGTM'', ''out/b.png'' \<mapsto> ''PNG:B+LGTM''],
      errStream = [],
      stdout = [''[success] out/a.png\<newline>'', ''[success] out/b.png\<newline>''],
      returned = Some 0\<rparr>"

definition m_twice :: "(file_map, string) state" where
  "m_twice =
     \<lparr>output_dir = ''out/'', force = True, maskImage = Some ''LGTM'', unvisited = [],
      goroutines =
        [\<lparr>filePath = ''in/a.png'', pc = Finished, maskedImage = Some ''A+LGTM'',
          mask_err = None, outputFilePath = ''out/a.png'', save_err = None\<rparr>,
         \<lparr>filePath = ''in/b.png'', pc = Finished, maskedImage = Some ''B+LGTM'',
          mask_err = None, outputFilePath = ''out/b.png'', save_err = None\<rparr>],
      wg = 0,
      fs = [''in/a.png'' \<mapsto> ''PNG:A'', ''in/b.png'' \<mapsto> ''PNG:B'',
            ''out/b.png'' \<mapsto> ''PNG:B+LGTM'', ''out/a.png'' \<mapsto> ''PNG:A+LGTM''],
      errStream = [],
      stdout = [''[success] out/b.png\<newline>'', ''[success] out/a.png\<newline>''],
      returned = Some 0\<rparr>"

section \<open>Properties of the transition system\<close>

lemma running_append: "running (gs @ [g]) = running gs + (if pc g \<noteq> Finished then 1 else 0)"
  by (simp add: running_def)

lemma running_update:
  "i < length gs \<Longrightarrow>
   running (gs[i := g]) + (if pc (gs ! i) \<noteq> Finished then 1 else 0)
     = running gs + (if pc g \<noteq> Finished then 1 else 0)"
proof (induction gs arbitrary: i)
  case Nil
  then show ?case by simp
next
  case (Cons a gs)
  show ?case
  proof (cases i)
    case 0
    then show ?thesis by (simp add: running_def)
  next
    case (Suc j)
    with Cons.prems have "j < length gs" by simp
    from Cons.IH[OF this] Suc show ?thesis by (simp add: running_def)
  qed
qed

lemma left_update:
  "i < length gs \<Longrightarrow>
   sum_list (map (\<lambda>g. steps_left (pc g)) (gs[i := g])) + steps_left (pc (gs ! i))
     = sum_list (map (\<lambda>g. steps_left (pc g)) gs) + steps_left (pc g)"
proof (induction gs arbitrary: i)
  case Nil
  then show ?case by simp
next
  case (Cons a gs)
  show ?case
  proof (cases i)
    case 0
    then show ?thesis by simp
  next
    case (Suc j)
    with Cons.prems have "j < length gs" by simp
    from Cons.IH[OF this] Suc show ?thesis by simp
  qed
qed

text \<open>What one step of a goroutine does to its label and to the state.\<close>

lemma goroutine_step_cases:
  assumes "goroutine_step env s g = Some (g', s')"
  shows "filePath g' = filePath g \<and> pc g \<noteq> Finished \<and>
         steps_left (pc g') < steps_left (pc g) \<and>
         output_dir s' = output_dir s \<and> force s' = force s \<and> maskImage s' = maskImage s \<and>
         unvisited s' = unvisited s \<and> returned s' = returned s \<and>
         goroutines s' = goroutines s \<and>
         wg s' = (if pc g' = Finished then wg s - 1 else wg s) \<and>
         (dest_ok (output_dir s) g \<longrightarrow> dest_ok (output_dir s) g')"
  using assms
  by (cases "pc g")
     (auto simp: goroutine_step_def dest_ok_def split: prod.splits if_splits)

lemma goroutine_step_enabled: "pc g \<noteq> Finished \<Longrightarrow> goroutine_step env s g \<noteq> None"
  by (cases "pc g") (auto simp: goroutine_step_def split: prod.splits)

lemma step_Main_dispatch:
  "returned s = None \<Longrightarrow> unvisited s = p # rest \<Longrightarrow>
   step env Main s =
     Some (s\<lparr>unvisited := rest, wg := wg s + 1, goroutines := goroutines s @ [go_func p]\<rparr>)"
  by (simp add: step_def)

lemma step_Main_wait:
  "returned s = None \<Longrightarrow> unvisited s = [] \<Longrightarrow>
   step env Main s = (if wg s = 0 then Some (s\<lparr>returned := Some ExitCodeOK\<rparr>) else None)"
  by (simp add: step_def)

lemma step_Main_returned: "returned s \<noteq> None \<Longrightarrow> step env Main s = None"
  by (simp add: step_def)

lemma step_GoroutineE:
  assumes "step env (Goroutine i) s = Some s'"
  obtains g' s1 where "i < length (goroutines s)"
    and "goroutine_step env s (goroutines s ! i) = Some (g', s1)"
    and "s' = s1\<lparr>goroutines := (goroutines s)[i := g']\<rparr>"
  using assms by (auto simp: step_def split: if_splits option.splits)

lemma dest_ok_go_func: "dest_ok out (go_func p)"
  by (simp add: dest_ok_def go_func_def)

lemma step_inv:
  assumes inv: "run_inv s0 s" and st: "step env th s = Some s'"
  shows "run_inv s0 s'"
proof (cases th)
  case Main
  show ?thesis
  proof (cases "unvisited s")
    case Nil
    with st Main inv show ?thesis
      by (auto simp: step_def run_inv_def split: if_splits)
  next
    case (Cons p rest)
    with st Main have ret: "returned s = None" by (auto simp: step_def split: if_splits)
    with st Main Cons
    have s': "s' = s\<lparr>unvisited := rest, wg := wg s + 1, goroutines := goroutines s @ [go_func p]\<rparr>"
      by (simp add: step_Main_dispatch)
    have "pc (go_func p :: 'b goroutine) \<noteq> Finished" "filePath (go_func p :: 'b goroutine) = p"
      by (simp_all add: go_func_def)
    with inv Cons ret show ?thesis
      unfolding s' run_inv_def by (simp add: running_append dest_ok_go_func)
  qed
next
  case (Goroutine i)
  with st obtain g' s1 where i: "i < length (goroutines s)"
    and gs: "goroutine_step env s (goroutines s ! i) = Some (g', s1)"
    and s': "s' = s1\<lparr>goroutines := (goroutines s)[i := g']\<rparr>"
    by (auto elim: step_GoroutineE)
  note c = goroutine_step_cases[OF gs]
  have paths: "map filePath ((goroutines s)[i := g']) = map filePath (goroutines s)"
    using c i by (simp add: map_update list_update_same_conv)
  have run: "int (running ((goroutines s)[i := g'])) = wg s1"
    using running_update[OF i, of g'] c inv by (auto simp: run_inv_def split: if_splits)
  have pos: "0 < running (goroutines s)"
  proof -
    have "goroutines s ! i \<in> set (filter (\<lambda>g. pc g \<noteq> Finished) (goroutines s))"
      using i c by simp
    then show ?thesis unfolding running_def by (metis length_pos_if_in_set)
  qed
  have dest: "list_all (dest_ok (output_dir s0)) ((goroutines s)[i := g'])"
  proof -
    from inv have all: "list_all (dest_ok (output_dir s0)) (goroutines s)"
      and out: "output_dir s = output_dir s0"
      by (simp_all add: run_inv_def)
    from all i have "dest_ok (output_dir s0) (goroutines s ! i)"
      by (simp add: list_all_length)
    with c out have "dest_ok (output_dir s0) g'" by simp
    with all show ?thesis
      by (auto simp: list_all_iff dest: set_update_subset_insert[THEN subsetD])
  qed
  from inv pos have "returned s = None" by (auto simp: run_inv_def)
  with inv c paths run dest show ?thesis
    unfolding s' run_inv_def by simp
qed

lemma step_budget:
  assumes "step env th s = Some s'"
  shows "budget s' < budget s"
proof (cases th)
  case Main
  with assms show ?thesis
    by (cases "unvisited s")
       (auto simp: step_def budget_def go_func_def split: if_splits)
next
  case (Goroutine i)
  with assms obtain g' s1 where i: "i < length (goroutines s)"
    and gs: "goroutine_step env s (goroutines s ! i) = Some (g', s1)"
    and s': "s' = s1\<lparr>goroutines := (goroutines s)[i := g']\<rparr>"
    by (auto elim: step_GoroutineE)
  note c = goroutine_step_cases[OF gs]
  from left_update[OF i, of g'] c show ?thesis
    unfolding s' budget_def by simp
qed

lemma exec_append:
  "exec env (xs @ ys) s = (case exec env xs s of None \<Rightarrow> None | Some s' \<Rightarrow> exec env ys s')"
  by (induction xs arbitrary: s) (auto split: option.splits)

lemma exec_inv: "run_inv s0 s \<Longrightarrow> exec env sched s = Some s' \<Longrightarrow> run_inv s0 s'"
  by (induction sched arbitrary: s) (auto split: option.splits dest: step_inv)

lemma exec_budget: "exec env sched s = Some s' \<Longrightarrow> budget s' + length sched \<le> budget s"
proof (induction sched arbitrary: s)
  case Nil
  then show ?case by simp
next
  case (Cons th ths)
  then obtain s1 where a: "step env th s = Some s1" and b: "exec env ths s1 = Some s'"
    by (auto split: option.splits)
  from Cons.IH[OF b] step_budget[OF a] show ?case by simp
qed

lemma progress:
  assumes inv: "run_inv s0 s" and ret: "returned s = None"
  shows "\<exists>th s'. step env th s = Some s'"
proof (cases "unvisited s")
  case (Cons p rest)
  from step_Main_dispatch[OF ret Cons, of env] show ?thesis by blast
next
  case Nil
  show ?thesis
  proof (cases "wg s = 0")
    case True
    with step_Main_wait[OF ret Nil, of env] show ?thesis by auto
  next
    case False
    with inv have "running (goroutines s) \<noteq> 0" by (auto simp: run_inv_def)
    then obtain g where "g \<in> set (goroutines s)" "pc g \<noteq> Finished"
      by (auto simp: running_def filter_empty_conv)
    then obtain i where i: "i < length (goroutines s)" and "pc (goroutines s ! i) \<noteq> Finished"
      by (auto simp: in_set_conv_nth)
    then obtain g' s1 where "goroutine_step env s (goroutines s ! i) = Some (g', s1)"
      using goroutine_step_enabled[of "goroutines s ! i" env s] by auto
    with i have "step env (Goroutine i) s = Some (s1\<lparr>goroutines := (goroutines s)[i := g']\<rparr>)"
      by (simp add: step_def)
    then show ?thesis by blast
  qed
qed

lemma can_return:
  assumes "run_inv s0 s"
  shows "\<exists>sched s'. exec env sched s = Some s' \<and> returned s' \<noteq> None"
  using assms
proof (induction "budget s" arbitrary: s rule: less_induct)
  case less
  show ?case
  proof (cases "returned s = None")
    case False
    then have "exec env [] s = Some s \<and> returned s \<noteq> None" by simp
    then show ?thesis by blast
  next
    case True
    from progress[OF less.prems True] obtain th s1 where st: "step env th s = Some s1"
      by blast
    from less.hyps[OF step_budget[OF st] step_inv[OF less.prems st]]
    obtain sched s' where "exec env sched s1 = Some s'" "returned s' \<noteq> None" by blast
    with st have "exec env (th # sched) s = Some s' \<and> returned s' \<noteq> None" by simp
    then show ?thesis by blast
  qed
qed

lemma final_returned:
  assumes inv: "run_inv s0 s" and fin: "final env s"
  shows "returned s = Some ExitCodeOK"
proof (rule ccontr)
  assume "returned s \<noteq> Some ExitCodeOK"
  with inv have ret: "returned s = None" by (auto simp: run_inv_def)
  from progress[OF inv ret] obtain th s' where st: "step env th s = Some s'" by blast
  show False
  proof (cases th)
    case Main
    with st fin show False by (simp add: final_def)
  next
    case (Goroutine i)
    with st have "i < length (goroutines s)" by (auto elim: step_GoroutineE)
    with st fin Goroutine show False by (simp add: final_def)
  qed
qed

lemma returned_all_finished:
  assumes inv: "run_inv s0 s" and ret: "returned s \<noteq> None"
  shows "unvisited s = [] \<and> wg s = 0 \<and> list_all (\<lambda>g. pc g = Finished) (goroutines s) \<and>
         map filePath (goroutines s) = unvisited s0"
proof -
  from inv ret have a: "unvisited s = []" "wg s = 0" "running (goroutines s) = 0"
    and b: "map filePath (goroutines s) @ unvisited s = unvisited s0"
    by (auto simp: run_inv_def)
  from a(3) have "list_all (\<lambda>g. pc g = Finished) (goroutines s)"
    by (auto simp: running_def filter_empty_conv list_all_iff)
  with a b show ?thesis by simp
qed

lemma run_inv_start:
  "goroutines s0 = [] \<Longrightarrow> wg s0 = 0 \<Longrightarrow> returned s0 = None \<Longrightarrow> run_inv s0 s0"
  by (simp add: run_inv_def running_def)

lemma Run_prefix_started:
  assumes "flags_Parse env rest = Inr (outp, dirp, frc, False)"
    and "dirp \<noteq> []" and "outp \<noteq> []"
    and "loadMaskImage env MaskImage = (m, None)"
    and "ioutil_ReadDir env d (addDirectorySuffix dirp) = Inr files"
  shows "Run_prefix env d (prog # rest) =
           Inr \<lparr>output_dir = addDirectorySuffix outp, force = frc, maskImage = m,
                unvisited = map (\<lambda>fileInfo. addDirectorySuffix dirp @ fi_Name fileInfo)
                              (filter (\<lambda>fileInfo. \<not> fi_IsDir fileInfo) files),
                goroutines = [], wg = 0, fs = d, errStream = [], stdout = [],
                returned = None\<rparr>"
  using assms by (simp add: Run_prefix_def readImagePaths_def)

text \<open>From a state in which \<^verbatim>\<open>Run\<close> has returned with nothing started, no thread moves.\<close>

lemma exec_nothing_started:
  assumes "goroutines s0 = []" and "returned s0 \<noteq> None" and "exec env sched s0 = Some s"
  shows "sched = [] \<and> s = s0"
proof (cases sched)
  case Nil
  with assms show ?thesis by simp
next
  case (Cons th ths)
  with assms obtain s1 where "step env th s0 = Some s1" by (auto split: option.splits)
  with assms(1,2) show ?thesis by (cases th) (auto simp: step_def)
qed

lemma Run_prefix_shape:
  assumes "Run_prefix env d args = Inr s0"
  shows "goroutines s0 = [] \<and> wg s0 = 0 \<and> fs s0 = d \<and> (returned s0 \<noteq> None \<longrightarrow> unvisited s0 = [])"
  using assms
  by (auto simp: Run_prefix_def early_return_def
           split: list.splits sum.splits prod.splits if_splits option.splits)

text \<open>The definitions that evaluate \<^verbatim>\<open>Run\<close> in the concrete world.\<close>

lemmas d_defs = d_env_def d_fs_def go_flag_Parse_def d_Asset_def d_Decode_def d_entry_def
  d_ReadDir_def d_Stat_def d_Open_def d_OverlayCenter_def d_Save_def ParseBool_def
lemmas run_defs = Run_def Run_prefix_def loadMaskImage_def readImagePaths_def overlayImage_def
  existFile_def addDirectorySuffix_def HasSuffix_def filepath_Base_def IsPathSeparator_def
  fmt_s_def MaskImage_def ExitCodeOK_def ExitCodeError_def iota_of_ExitCodeError_def
  step_def goroutine_step_def go_func_def early_return_def

lemma Run_prefix_startedD:
  assumes pre: "Run_prefix env d (prog # rest) = Inr s0" and started: "returned s0 = None"
    and parse: "flags_Parse env rest = Inr (outp, dirp, frc, ver)"
  shows "\<not> ver \<and> dirp \<noteq> [] \<and> outp \<noteq> [] \<and> snd (loadMaskImage env MaskImage) = None \<and>
         (\<exists>paths. readImagePaths env d (addDirectorySuffix dirp) = Inr paths \<and>
            s0 = \<lparr>output_dir = addDirectorySuffix outp, force = frc,
                  maskImage = fst (loadMaskImage env MaskImage), unvisited = paths,
                  goroutines = [], wg = 0, fs = d, errStream = [], stdout = [],
                  returned = None\<rparr>)"
  using assms
  by (auto simp: Run_prefix_def early_return_def
           split: sum.splits prod.splits if_splits option.splits)

text \<open>
  A step of another thread leaves the record of a goroutine as it is: under any schedule a
  goroutine goes through its own labels, and each of its branches is decided by the file
  system at the moment of its own step.
\<close>

lemma other_thread_frame:
  assumes st: "step env th s = Some s'" and other: "th \<noteq> Goroutine i"
    and i: "i < length (goroutines s)"
  shows "i < length (goroutines s') \<and> goroutines s' ! i = goroutines s ! i"
proof (cases th)
  case Main
  with st i show ?thesis
    by (cases "unvisited s") (auto simp: step_def nth_append split: if_splits)
next
  case (Goroutine j)
  with st obtain g' s1 where j: "j < length (goroutines s)"
    and gs: "goroutine_step env s (goroutines s ! j) = Some (g', s1)"
    and s': "s' = s1\<lparr>goroutines := (goroutines s)[j := g']\<rparr>"
    by (auto elim: step_GoroutineE)
  from other Goroutine have "j \<noteq> i" by simp
  with i show ?thesis unfolding s' by simp
qed





text \<open>The scenario, evaluated.\<close>

lemma d_Run_prefix: "Run_prefix d_env d_fs d_args = Inr d_loop_start"
  by (simp add: d_defs run_defs d_args_def d_loop_start_def)

lemma d_Run_started: "Run d_env d_fs [Main, Main, Main] d_args = Some (Inr d_started)"
  by (simp add: d_defs run_defs d_args_def d_started_def)

lemma d_Run_finished: "Run d_env d_fs d_schedule d_args = Some (Inr d_finished)"
  by (simp add: d_defs run_defs d_args_def d_schedule_def d_finished_def)

lemma d_Run_at_guard: "Run d_env d_fs_denied [Main, Goroutine 0] d_args = Some (Inr d_at_guard)"
  by (simp add: d_defs run_defs d_args_def d_fs_denied_def d_at_guard_def)

lemma d_parse: "flags_Parse d_env (tl d_args) = Inr (''out'', ''in'', False, False)"
  by (simp add: d_defs d_args_def)

lemma d_listing:
  "ioutil_ReadDir d_env d_fs (addDirectorySuffix ''in'') =
     Inr [\<lparr>fi_Name = ''a.png'', fi_IsDir = False\<rparr>, \<lparr>fi_Name = ''b.png'', fi_IsDir = False\<rparr>,
          \<lparr>fi_Name = ''c.txt'', fi_IsDir = False\<rparr>, \<lparr>fi_Name = ''sub'', fi_IsDir = True\<rparr>]"
  by (simp add: d_defs run_defs)

subsection \<open>A forced run on file maps\<close>

lemma overlayImage_same_file:
  assumes "file_library env encode" and "f p = f' p"
  shows "overlayImage env f p m = overlayImage env f' p m"
proof -
  from assms have "imaging_Open env f p = imaging_Open env f' p"
    unfolding file_library_def by blast
  then show ?thesis by (simp add: overlayImage_def)
qed

lemma overlayImage_results:
  "overlayImage env f p m = (img, err) \<Longrightarrow> (err = None) = (img \<noteq> None)"
  by (auto simp: overlayImage_def split: sum.splits)

lemma goroutine_step_idem:
  assumes lib: "file_library env encode"
    and st: "goroutine_step env s g = Some (g', s1)"
    and frc: "force s"
    and sn: "sane env f0 (maskImage s) g"
    and dst: "dest_ok (output_dir s) g"
    and rd: "pc g = L122 \<longrightarrow> fs s (filePath g) = f0 (filePath g)"
  shows "sane env f0 (maskImage s) g' \<and>
         (wrote g' \<longleftrightarrow> wrote g \<or> pc g = L139) \<and>
         fs s1 =
           (if pc g = L139
            then (case written_bytes env encode f0 (maskImage s) (output_dir s) (filePath g) of
                    None \<Rightarrow> fs s
                  | Some b \<Rightarrow> (fs s)(output_dir s @ filepath_Base (filePath g) \<mapsto> b))
            else fs s)"
proof (cases "pc g")
  case L122
  with rd have "fs s (filePath g) = f0 (filePath g)" by simp
  from overlayImage_same_file[where f = "fs s" and f' = f0 and p = "filePath g", OF lib this]
  have eq: "overlayImage env (fs s) (filePath g) (maskImage s)
            = overlayImage env f0 (filePath g) (maskImage s)" .
  obtain img err where ov: "overlayImage env f0 (filePath g) (maskImage s) = (img, err)"
    by (cases "overlayImage env f0 (filePath g) (maskImage s)")
  from st L122 eq ov show ?thesis
    by (cases err) (auto simp: goroutine_step_def sane_def wrote_def)
next
  case L124
  with st sn show ?thesis by (auto simp: goroutine_step_def sane_def wrote_def)
next
  case L135
  with st sn frc show ?thesis by (auto simp: goroutine_step_def sane_def wrote_def)
next
  case L136
  with sn show ?thesis by (simp add: sane_def)
next
  case L139
  with sn have me: "mask_err g = None"
    and ov: "overlayImage env f0 (filePath g) (maskImage s) = (maskedImage g, None)"
    by (auto simp: sane_def)
  with dst L139 have out: "outputFilePath g = output_dir s @ filepath_Base (filePath g)"
    by (simp add: dest_ok_def)
  from lib have sv: "imaging_Save env (fs s) (maskedImage g) (outputFilePath g) =
        (case encode (maskedImage g) (outputFilePath g) of
           Inl err \<Rightarrow> (Some err, fs s) | Inr b \<Rightarrow> (None, (fs s)(outputFilePath g \<mapsto> b)))"
    unfolding file_library_def by blast
  show ?thesis
  proof (cases "encode (maskedImage g) (outputFilePath g)")
    case (Inl e)
    with st L139 sv sn me ov out show ?thesis
      by (auto simp: goroutine_step_def sane_def wrote_def written_bytes_def)
  next
    case (Inr b)
    with st L139 sv sn me ov out show ?thesis
      by (auto simp: goroutine_step_def sane_def wrote_def written_bytes_def)
  qed
next
  case L141
  with st sn show ?thesis by (auto simp: goroutine_step_def sane_def wrote_def)
next
  case L144
  with st sn show ?thesis by (auto simp: goroutine_step_def sane_def wrote_def)
next
  case L120
  with st sn show ?thesis by (auto simp: goroutine_step_def sane_def wrote_def)
next
  case Finished
  with st show ?thesis by (simp add: goroutine_step_def)
qed

lemma idem_inv_start:
  "force s0 \<Longrightarrow> goroutines s0 = [] \<Longrightarrow> idem_inv env encode (fs s0) s0"
  by (simp add: idem_inv_def files_inv_def)

lemma files_inv_append:
  assumes inv: "files_inv env encode f0 m out gs f"
    and new: "sane env f0 m g" "\<not> wrote g"
  shows "files_inv env encode f0 m out (gs @ [g]) f"
proof -
  have nth: "(gs @ [g]) ! j = (if j < length gs then gs ! j else g)"
    if "j < Suc (length gs)" for j
    using that by (auto simp: nth_append less_Suc_eq)
  from inv have each: "\<And>j. j < length gs \<Longrightarrow>
        sane env f0 m (gs ! j) \<and>
        (wrote (gs ! j) \<longrightarrow>
           (\<forall>b. written_bytes env encode f0 m out (filePath (gs ! j)) = Some b \<longrightarrow>
                f (out @ filepath_Base (filePath (gs ! j))) = Some b))"
    and rest: "\<And>q. (\<forall>j < length gs.
              wrote (gs ! j) \<longrightarrow>
              written_bytes env encode f0 m out (filePath (gs ! j)) \<noteq> None \<longrightarrow>
              out @ filepath_Base (filePath (gs ! j)) \<noteq> q) \<Longrightarrow> f q = f0 q"
    unfolding files_inv_def by blast+
  show ?thesis
    unfolding files_inv_def
  proof (intro conjI allI impI)
    fix j assume "j < length (gs @ [g])"
    then have j: "j < Suc (length gs)" by simp
    show "sane env f0 m ((gs @ [g]) ! j)"
      using nth[OF j] each[of j] new by simp
  next
    fix j b
    assume "j < length (gs @ [g])" and w: "wrote ((gs @ [g]) ! j)"
      and wb: "written_bytes env encode f0 m out (filePath ((gs @ [g]) ! j)) = Some b"
    then have j: "j < Suc (length gs)" by simp
    from w nth[OF j] new have "j < length gs"
      by (cases "j < length gs") simp_all
    with w wb nth[OF j] each[of j]
    show "f (out @ filepath_Base (filePath ((gs @ [g]) ! j))) = Some b" by simp
  next
    fix q
    assume a: "\<forall>j<length (gs @ [g]). wrote ((gs @ [g]) ! j) \<longrightarrow>
            written_bytes env encode f0 m out (filePath ((gs @ [g]) ! j)) \<noteq> None \<longrightarrow>
            out @ filepath_Base (filePath ((gs @ [g]) ! j)) \<noteq> q"
    have "\<forall>j < length gs. wrote (gs ! j) \<longrightarrow>
              written_bytes env encode f0 m out (filePath (gs ! j)) \<noteq> None \<longrightarrow>
              out @ filepath_Base (filePath (gs ! j)) \<noteq> q"
    proof (intro allI impI)
      fix j
      assume "j < length gs" "wrote (gs ! j)"
        "written_bytes env encode f0 m out (filePath (gs ! j)) \<noteq> None"
      with a[rule_format, of j] show "out @ filepath_Base (filePath (gs ! j)) \<noteq> q"
        by (simp add: nth_append)
    qed
    from rest[OF this] show "f q = f0 q" .
  qed
qed

text \<open>One goroutine moves: its record changes, and the file at its destination when the
  step is a successful \<^verbatim>\<open>imaging.Save\<close>.\<close>

lemma files_inv_update:
  assumes inv: "files_inv env encode f0 m out gs f"
    and i: "i < length gs"
    and src: "filePath g' = filePath (gs ! i)"
    and sn: "sane env f0 m g'"
    and wr: "wrote g' \<longleftrightarrow> wrote (gs ! i) \<or> saving"
    and f': "f' = (if saving
                   then (case written_bytes env encode f0 m out (filePath (gs ! i)) of
                           None \<Rightarrow> f
                         | Some b \<Rightarrow> f(out @ filepath_Base (filePath (gs ! i)) \<mapsto> b))
                   else f)"
    and inj: "\<And>j. j < length gs \<Longrightarrow>
                out @ filepath_Base (filePath (gs ! j)) = out @ filepath_Base (filePath (gs ! i))
                \<Longrightarrow> j = i"
  shows "files_inv env encode f0 m out (gs[i := g']) f'"
proof -
  from inv have each: "\<And>j. j < length gs \<Longrightarrow>
        sane env f0 m (gs ! j) \<and>
        (wrote (gs ! j) \<longrightarrow>
           (\<forall>b. written_bytes env encode f0 m out (filePath (gs ! j)) = Some b \<longrightarrow>
                f (out @ filepath_Base (filePath (gs ! j))) = Some b))"
    and rest: "\<And>q. (\<forall>j < length gs.
              wrote (gs ! j) \<longrightarrow>
              written_bytes env encode f0 m out (filePath (gs ! j)) \<noteq> None \<longrightarrow>
              out @ filepath_Base (filePath (gs ! j)) \<noteq> q) \<Longrightarrow> f q = f0 q"
    unfolding files_inv_def by blast+
  have other: "f' q = f q" if "q \<noteq> out @ filepath_Base (filePath (gs ! i))" for q
    using that f' by (auto split: option.splits)
  show ?thesis
    unfolding files_inv_def
  proof (intro conjI allI impI)
    fix j assume "j < length (gs[i := g'])"
    then have j: "j < length gs" by simp
    show "sane env f0 m (gs[i := g'] ! j)"
      using each[OF j] sn i by (cases "j = i") simp_all
  next
    fix j b
    assume "j < length (gs[i := g'])" and w: "wrote (gs[i := g'] ! j)"
      and wb: "written_bytes env encode f0 m out (filePath (gs[i := g'] ! j)) = Some b"
    then have j: "j < length gs" by simp
    show "f' (out @ filepath_Base (filePath (gs[i := g'] ! j))) = Some b"
    proof (cases "j = i")
      case True
      with w wb i src have w': "wrote g'"
        and wb': "written_bytes env encode f0 m out (filePath (gs ! i)) = Some b" by simp_all
      show ?thesis
      proof (cases saving)
        case True
        with f' wb' \<open>j = i\<close> i src show ?thesis by simp
      next
        case False
        with wr w' have "wrote (gs ! i)" by simp
        with each[OF i] wb' have "f (out @ filepath_Base (filePath (gs ! i))) = Some b" by blast
        with False f' \<open>j = i\<close> i src show ?thesis by simp
      qed
    next
      case False
      with w wb have w': "wrote (gs ! j)"
        and wb': "written_bytes env encode f0 m out (filePath (gs ! j)) = Some b" by simp_all
      with each[OF j] have old: "f (out @ filepath_Base (filePath (gs ! j))) = Some b" by blast
      from inj[OF j] False
      have "out @ filepath_Base (filePath (gs ! j)) \<noteq> out @ filepath_Base (filePath (gs ! i))"
        by blast
      from other[OF this] old False show ?thesis by simp
    qed
  next
    fix q
    assume a: "\<forall>j<length (gs[i := g']). wrote (gs[i := g'] ! j) \<longrightarrow>
            written_bytes env encode f0 m out (filePath (gs[i := g'] ! j)) \<noteq> None \<longrightarrow>
            out @ filepath_Base (filePath (gs[i := g'] ! j)) \<noteq> q"
    have "\<forall>j < length gs. wrote (gs ! j) \<longrightarrow>
              written_bytes env encode f0 m out (filePath (gs ! j)) \<noteq> None \<longrightarrow>
              out @ filepath_Base (filePath (gs ! j)) \<noteq> q"
    proof (intro allI impI)
      fix j
      assume j: "j < length gs" and w: "wrote (gs ! j)"
        and wb: "written_bytes env encode f0 m out (filePath (gs ! j)) \<noteq> None"
      show "out @ filepath_Base (filePath (gs ! j)) \<noteq> q"
      proof (cases "j = i")
        case True
        with w wr have "wrote g'" by simp
        with a[rule_format, of i] i src wb True show ?thesis by simp
      next
        case False
        with a[rule_format, of j] j w wb show ?thesis by simp
      qed
    qed
    from rest[OF this] have old: "f q = f0 q" .
    show "f' q = f0 q"
    proof (cases "saving \<and> written_bytes env encode f0 m out (filePath (gs ! i)) \<noteq> None")
      case True
      with wr have "wrote g'" by simp
      with a[rule_format, of i] i src True
      have "q \<noteq> out @ filepath_Base (filePath (gs ! i))" by auto
      from other[OF this] old show ?thesis by simp
    next
      case False
      with f' have "f' = f" by (auto split: option.splits)
      with old show ?thesis by simp
    qed
  qed
qed

lemma idem_step:
  assumes lib: "file_library env encode"
    and inv: "run_inv s0 s"
    and idem: "idem_inv env encode f0 s"
    and P: "paths_ok (output_dir s0) (unvisited s0)"
    and st: "step env th s = Some s'"
  shows "idem_inv env encode f0 s'"
proof (cases th)
  case Main
  show ?thesis
  proof (cases "unvisited s")
    case Nil
    with st Main idem show ?thesis
      by (auto simp: step_def idem_inv_def split: if_splits)
  next
    case (Cons p rest)
    with st Main have ret: "returned s = None" by (auto simp: step_def split: if_splits)
    with st Main Cons
    have s': "s' = s\<lparr>unvisited := rest, wg := wg s + 1, goroutines := goroutines s @ [go_func p]\<rparr>"
      by (simp add: step_Main_dispatch)
    have "sane env f0 (maskImage s) (go_func p)" "\<not> wrote (go_func p :: 'a goroutine)"
      by (simp_all add: sane_def wrote_def go_func_def)
    with idem show ?thesis
      unfolding s' idem_inv_def by (simp add: files_inv_append)
  qed
next
  case (Goroutine i)
  with st obtain g' s1 where i: "i < length (goroutines s)"
    and gs: "goroutine_step env s (goroutines s ! i) = Some (g', s1)"
    and s': "s' = s1\<lparr>goroutines := (goroutines s)[i := g']\<rparr>"
    by (auto elim: step_GoroutineE)
  note c = goroutine_step_cases[OF gs]
  let ?gs = "goroutines s" and ?out = "output_dir s" and ?m = "maskImage s"
  from inv have out: "output_dir s = output_dir s0"
    and paths: "map filePath ?gs @ unvisited s = unvisited s0"
    and dests: "list_all (dest_ok (output_dir s0)) ?gs"
    by (simp_all add: run_inv_def)
  from P paths have dist: "distinct (map filePath ?gs)"
    by (metis distinct_append paths_ok_def)
  have mem: "filePath (?gs ! j) \<in> set (unvisited s0)" if "j < length ?gs" for j
  proof -
    from that have "filePath (?gs ! j) \<in> set (map filePath ?gs)" by simp
    with paths show ?thesis by (metis Un_iff set_append)
  qed
  have same: "j = k" if "j < length ?gs" "k < length ?gs" "filePath (?gs ! j) = filePath (?gs ! k)"
    for j k
    using that dist by (auto simp: distinct_conv_nth)
  from idem have frc: "force s" and fi: "files_inv env encode f0 ?m ?out ?gs (fs s)"
    by (simp_all add: idem_inv_def)
  from fi i have sn: "sane env f0 ?m (?gs ! i)" by (simp add: files_inv_def)
  from dests i out have dst: "dest_ok ?out (?gs ! i)" by (simp add: list_all_length)
  have rd: "pc (?gs ! i) = L122 \<longrightarrow> fs s (filePath (?gs ! i)) = f0 (filePath (?gs ! i))"
  proof
    assume at: "pc (?gs ! i) = L122"
    have "\<forall>j < length ?gs. wrote (?gs ! j) \<longrightarrow>
            written_bytes env encode f0 ?m ?out (filePath (?gs ! j)) \<noteq> None \<longrightarrow>
            ?out @ filepath_Base (filePath (?gs ! j)) \<noteq> filePath (?gs ! i)"
    proof (intro allI impI notI)
      fix j
      assume j: "j < length ?gs" and w: "wrote (?gs ! j)"
        and eq: "?out @ filepath_Base (filePath (?gs ! j)) = filePath (?gs ! i)"
      from P mem[OF i] mem[OF j] eq out have "filePath (?gs ! j) = filePath (?gs ! i)"
        unfolding paths_ok_def by metis
      from same[OF j i this] w at show False by (simp add: wrote_def)
    qed
    with fi show "fs s (filePath (?gs ! i)) = f0 (filePath (?gs ! i))"
      unfolding files_inv_def by blast
  qed
  from goroutine_step_idem[OF lib gs frc sn dst rd]
  have sn': "sane env f0 ?m g'"
    and wr: "wrote g' \<longleftrightarrow> wrote (?gs ! i) \<or> pc (?gs ! i) = L139"
    and f': "fs s1 =
           (if pc (?gs ! i) = L139
            then (case written_bytes env encode f0 ?m ?out (filePath (?gs ! i)) of
                    None \<Rightarrow> fs s
                  | Some b \<Rightarrow> (fs s)(?out @ filepath_Base (filePath (?gs ! i)) \<mapsto> b))
            else fs s)"
    by blast+
  have inj: "j = i"
    if j: "j < length ?gs"
      and eq: "?out @ filepath_Base (filePath (?gs ! j)) = ?out @ filepath_Base (filePath (?gs ! i))"
    for j
  proof -
    from P mem[OF i] mem[OF j] eq out have "filePath (?gs ! j) = filePath (?gs ! i)"
      unfolding paths_ok_def by metis
    from same[OF j i this] show ?thesis .
  qed
  from c have src: "filePath g' = filePath (?gs ! i)" by simp
  from files_inv_update[OF fi i src sn' wr f' inj]
  have "files_inv env encode f0 ?m ?out (?gs[i := g']) (fs s1)" by simp
  with frc c show ?thesis
    unfolding s' idem_inv_def by simp
qed

lemma idem_exec:
  assumes lib: "file_library env encode"
    and P: "paths_ok (output_dir s0) (unvisited s0)"
  shows "run_inv s0 s \<Longrightarrow> idem_inv env encode f0 s \<Longrightarrow> exec env sched s = Some s'
         \<Longrightarrow> idem_inv env encode f0 s'"
proof (induction sched arbitrary: s)
  case Nil
  then show ?case by simp
next
  case (Cons th ths)
  from Cons.prems(3) obtain s1 where a: "step env th s = Some s1"
    and b: "exec env ths s1 = Some s'"
    by (auto split: option.splits)
  from Cons.IH[OF step_inv[OF Cons.prems(1) a] idem_step[OF lib Cons.prems(1,2) P a] b]
  show ?case .
qed

text \<open>The files when \<^verbatim>\<open>Run\<close> has returned: those it started in, with the bytes of
  every path whose goroutine saved.\<close>

lemma idem_final:
  assumes inv: "run_inv s0 s" and idem: "idem_inv env encode f0 s" and ret: "returned s \<noteq> None"
  shows "(\<forall>p \<in> set (unvisited s0). \<forall>b.
            written_bytes env encode f0 (maskImage s0) (output_dir s0) p = Some b \<longrightarrow>
            fs s (output_dir s0 @ filepath_Base p) = Some b) \<and>
         (\<forall>q. (\<forall>p \<in> set (unvisited s0).
                 written_bytes env encode f0 (maskImage s0) (output_dir s0) p \<noteq> None \<longrightarrow>
                 output_dir s0 @ filepath_Base p \<noteq> q) \<longrightarrow>
              fs s q = f0 q)"
proof -
  let ?gs = "goroutines s"
  from inv have out: "output_dir s = output_dir s0" and m: "maskImage s = maskImage s0"
    by (simp_all add: run_inv_def)
  from returned_all_finished[OF inv ret]
  have fin: "list_all (\<lambda>g. pc g = Finished) ?gs" and paths: "map filePath ?gs = unvisited s0"
    by simp_all
  from idem out m
  have fi: "files_inv env encode f0 (maskImage s0) (output_dir s0) ?gs (fs s)"
    by (simp add: idem_inv_def)
  have a: "fs s (output_dir s0 @ filepath_Base p) = Some b"
    if p: "p \<in> set (unvisited s0)"
      and wb: "written_bytes env encode f0 (maskImage s0) (output_dir s0) p = Some b" for p b
  proof -
    from p paths obtain j where j: "j < length ?gs" and pj: "filePath (?gs ! j) = p"
      by (metis in_set_conv_nth length_map nth_map)
    from fin j have pcj: "pc (?gs ! j) = Finished" by (simp add: list_all_length)
    from fi j have "sane env f0 (maskImage s0) (?gs ! j)" by (simp add: files_inv_def)
    with pcj pj
    have "(maskedImage (?gs ! j), mask_err (?gs ! j)) = overlayImage env f0 p (maskImage s0)"
      by (simp add: sane_def)
    with wb have "mask_err (?gs ! j) = None"
      by (cases "mask_err (?gs ! j)") (auto simp: written_bytes_def split: prod.splits)
    with pcj have "wrote (?gs ! j)" by (simp add: wrote_def)
    with fi j wb pj show ?thesis unfolding files_inv_def by blast
  qed
  have b: "fs s q = f0 q"
    if "\<forall>p \<in> set (unvisited s0).
          written_bytes env encode f0 (maskImage s0) (output_dir s0) p \<noteq> None \<longrightarrow>
          output_dir s0 @ filepath_Base p \<noteq> q" for q
  proof -
    have "\<forall>j < length ?gs. wrote (?gs ! j) \<longrightarrow>
            written_bytes env encode f0 (maskImage s0) (output_dir s0) (filePath (?gs ! j)) \<noteq> None \<longrightarrow>
            output_dir s0 @ filepath_Base (filePath (?gs ! j)) \<noteq> q"
    proof (intro allI impI)
      fix j
      assume j: "j < length ?gs"
        and wb: "written_bytes env encode f0 (maskImage s0) (output_dir s0) (filePath (?gs ! j)) \<noteq> None"
      from j have "filePath (?gs ! j) \<in> set (map filePath ?gs)" by simp
      with paths have "filePath (?gs ! j) \<in> set (unvisited s0)" by simp
      with that wb show "output_dir s0 @ filepath_Base (filePath (?gs ! j)) \<noteq> q" by blast
    qed
    with fi show ?thesis unfolding files_inv_def by blast
  qed
  from a b show ?thesis by blast
qed

lemma HasSuffix_slash: "HasSuffix d ''/'' \<longleftrightarrow> d \<noteq> [] \<and> last d = CHR ''/''"
proof (cases d rule: rev_cases)
  case Nil
  then show ?thesis by (simp add: HasSuffix_def)
next
  case (snoc ys y)
  then show ?thesis by (simp add: HasSuffix_def)
qed

lemma HasSuffix_addDirectorySuffix: "HasSuffix (addDirectorySuffix d) ''/''"
  by (simp add: addDirectorySuffix_def HasSuffix_slash)

lemma last_segment:
  assumes "HasSuffix a ''/''" and "CHR ''/'' \<notin> set x"
  shows "takeWhile (\<lambda>c. \<not> IsPathSeparator c) (rev (a @ x)) = rev x"
proof -
  from assms(1) obtain ys where a: "a = ys @ ''/''"
    by (cases a rule: rev_cases) (auto simp: HasSuffix_slash)
  from assms(2) have "\<forall>c \<in> set (rev x). \<not> IsPathSeparator c"
    by (auto simp: IsPathSeparator_def)
  then have "takeWhile (\<lambda>c. \<not> IsPathSeparator c) (rev x @ CHR ''/'' # rev ys) = rev x"
    by (simp add: takeWhile_tail IsPathSeparator_def)
  with a show ?thesis by simp
qed

lemma filepath_Base_entry:
  assumes "HasSuffix dir ''/''" and "name \<noteq> []" and "CHR ''/'' \<notin> set name"
  shows "filepath_Base (dir @ name) = name"
proof -
  from assms(2) have "last name \<in> set name" by simp
  with assms(3) have "\<not> IsPathSeparator (last name)"
    by (auto simp: IsPathSeparator_def)
  with assms(2) have "dropWhile IsPathSeparator (rev (dir @ name)) = rev (dir @ name)"
    by (cases name rule: rev_cases) simp_all
  with last_segment[OF assms(1,3)] assms(2) show ?thesis
    by (simp add: filepath_Base_def)
qed

lemma same_last_segment:
  assumes "a @ x = b @ y" and "HasSuffix a ''/''" and "HasSuffix b ''/''"
    and "CHR ''/'' \<notin> set x" and "CHR ''/'' \<notin> set y"
  shows "x = y"
proof -
  from last_segment[OF assms(2,4)] last_segment[OF assms(3,5)] assms(1)
  have "rev x = rev y" by simp
  then show ?thesis by simp
qed

lemma paths_ok_listing:
  assumes dist: "distinct (map fi_Name files)"
    and names: "\<forall>f \<in> set files. fi_Name f \<noteq> [] \<and> CHR ''/'' \<notin> set (fi_Name f)"
  shows "paths_ok (addDirectorySuffix outp)
           (map (\<lambda>fileInfo. addDirectorySuffix dirp @ fi_Name fileInfo)
              (filter (\<lambda>fileInfo. \<not> fi_IsDir fileInfo) files))"
proof -
  let ?out = "addDirectorySuffix outp" and ?dir = "addDirectorySuffix dirp"
  let ?fs = "filter (\<lambda>fileInfo. \<not> fi_IsDir fileInfo) files"
  note o = HasSuffix_addDirectorySuffix[of outp] and d = HasSuffix_addDirectorySuffix[of dirp]
  from dist have "distinct (map fi_Name ?fs)" by (rule distinct_map_filter)
  then have inj: "inj_on fi_Name (set ?fs)" and dfs: "distinct ?fs"
    by (simp_all add: distinct_map)
  have base: "filepath_Base (?dir @ fi_Name f) = fi_Name f" if "f \<in> set ?fs" for f
    using that names by (intro filepath_Base_entry[OF d]) auto
  have eq: "f' = f"
    if f: "f \<in> set ?fs" and f': "f' \<in> set ?fs" and n: "fi_Name f' = fi_Name f" for f f'
    using inj f f' n by (auto dest: inj_onD)
  have a: "distinct (map (\<lambda>fileInfo. ?dir @ fi_Name fileInfo) ?fs)"
    unfolding distinct_map
  proof
    show "distinct ?fs" by (rule dfs)
    show "inj_on (\<lambda>fileInfo. ?dir @ fi_Name fileInfo) (set ?fs)"
    proof (rule inj_onI)
      fix x y
      assume x: "x \<in> set ?fs" and y: "y \<in> set ?fs"
        and "?dir @ fi_Name x = ?dir @ fi_Name y"
      then have "fi_Name x = fi_Name y" by simp
      from eq[OF y x this] show "x = y" .
    qed
  qed
  have b: "?dir @ fi_Name f' = ?dir @ fi_Name f"
    if f: "f \<in> set ?fs" and f': "f' \<in> set ?fs"
      and e: "?out @ filepath_Base (?dir @ fi_Name f') = ?dir @ fi_Name f" for f f'
  proof -
    from e base[OF f'] have "?out @ fi_Name f' = ?dir @ fi_Name f" by simp
    from same_last_segment[OF this o d] f f' names have "fi_Name f' = fi_Name f" by auto
    then show ?thesis by simp
  qed
  have c: "?dir @ fi_Name f' = ?dir @ fi_Name f"
    if f: "f \<in> set ?fs" and f': "f' \<in> set ?fs"
      and e: "?out @ filepath_Base (?dir @ fi_Name f') = ?out @ filepath_Base (?dir @ fi_Name f)"
    for f f'
    using e base[OF f] base[OF f'] by simp
  from a b c show ?thesis
    unfolding paths_ok_def by (auto simp del: filter_filter)
qed

lemma written_bytes_same_file:
  assumes "file_library env encode" and "f p = f' p"
  shows "written_bytes env encode f m out p = written_bytes env encode f' m out p"
  using overlayImage_same_file[where f = f and f' = f' and p = p, OF assms]
  by (simp add: written_bytes_def)

lemma m_file_library: "file_library m_env m_encode"
  by (simp add: file_library_def m_env_def)

lemma m_Run_once: "Run m_env m_fs m_schedule1 m_args = Some (Inr m_once)"
  by (simp add: d_defs run_defs m_env_def m_encode_def m_fs_def m_args_def m_schedule1_def
                m_once_def)

lemma m_Run_twice: "Run m_env (fs m_once) m_schedule2 m_args = Some (Inr m_twice)"
  by (simp add: d_defs run_defs m_env_def m_encode_def m_fs_def m_args_def m_schedule2_def
                m_once_def m_twice_def)

section \<open>The claims\<close>

subsection \<open>Fatal conditions\<close>

text \<open>
  Claim C1, as the code has it. \<^verbatim>\<open>ExitCodeError\<close> is 2. When the flags do not parse, or
  parse without \<^verbatim>\<open>-version\<close> and the input directory or the output directory is empty, or
  the mask asset is missing, \<^verbatim>\<open>Run\<close> has exactly one execution, the empty one: it returns
  \<^verbatim>\<open>ExitCodeError\<close> after one message on the error stream, with no goroutine started and
  the file system untouched. When the input directory cannot be read, \<^verbatim>\<open>Run\<close> does not
  return: \<^verbatim>\<open>readImagePaths\<close> panics with the error of \<^verbatim>\<open>ioutil.ReadDir\<close>, again before
  any goroutine is started.
\<close>

theorem fatal_conditions:
  "ExitCodeError = 2 \<and>
   (flags_Parse env rest = Inl printed \<longrightarrow>
      (\<forall>sched. Run env d sched (prog # rest) =
         (if sched = [] then Some (Inr (early_return d [printed] ExitCodeError)) else None))) \<and>
   (flags_Parse env rest = Inr (outp, dirp, frc, False) \<and> dirp = [] \<longrightarrow>
      (\<forall>sched. Run env d sched (prog # rest) =
         (if sched = []
          then Some (Inr (early_return d [''input directory path is required.\<newline>'']
                            ExitCodeError))
          else None))) \<and>
   (flags_Parse env rest = Inr (outp, dirp, frc, False) \<and> dirp \<noteq> [] \<and> outp = [] \<longrightarrow>
      (\<forall>sched. Run env d sched (prog # rest) =
         (if sched = []
          then Some (Inr (early_return d [''output directory path is required.\<newline>'']
                            ExitCodeError))
          else None))) \<and>
   (flags_Parse env rest = Inr (outp, dirp, frc, False) \<and> dirp \<noteq> [] \<and> outp \<noteq> [] \<and>
    images_Asset env MaskImage = Inl err \<longrightarrow>
      (\<forall>sched. Run env d sched (prog # rest) =
         (if sched = []
          then Some (Inr (early_return d [''fatal error '' @ err @ ''.\<newline>''] ExitCodeError))
          else None))) \<and>
   (flags_Parse env rest = Inr (outp, dirp, frc, False) \<and> dirp \<noteq> [] \<and> outp \<noteq> [] \<and>
    snd (loadMaskImage env MaskImage) = None \<and>
    ioutil_ReadDir env d (addDirectorySuffix dirp) = Inl err \<longrightarrow>
      (\<forall>sched. Run env d sched (prog # rest) = (if sched = [] then Some (Inl err) else None))) \<and>
   goroutines (early_return d written code :: ('a, 'b) state) = [] \<and>
   fs (early_return d written code :: ('a, 'b) state) = d \<and>
   returned (early_return d written code :: ('a, 'b) state) = Some code"
proof -
  have no_step: "exec env sched (early_return d w c) = (if sched = [] then Some (early_return d w c) else None)"
    for sched w c
  proof (cases sched)
    case Nil
    then show ?thesis by simp
  next
    case (Cons th ths)
    have "step env th (early_return d w c) = None"
      by (cases th) (simp_all add: step_def early_return_def)
    with Cons show ?thesis by simp
  qed
  have early: "Run env d sched (prog # rest) =
                 (if sched = [] then Some (Inr (early_return d w c)) else None)"
    if "Run_prefix env d (prog # rest) = Inr (early_return d w c)" for sched w c
    using that no_step[of sched w c] by (simp add: Run_def)
  have a: "ExitCodeError = 2" by (simp add: ExitCodeError_def iota_of_ExitCodeError_def)
  have b: "\<forall>sched. Run env d sched (prog # rest) =
         (if sched = [] then Some (Inr (early_return d [printed] ExitCodeError)) else None)"
    if "flags_Parse env rest = Inl printed"
    using that by (intro allI early) (simp add: Run_prefix_def)
  have c: "\<forall>sched. Run env d sched (prog # rest) =
         (if sched = []
          then Some (Inr (early_return d [''input directory path is required.\<newline>'']
                            ExitCodeError))
          else None)"
    if "flags_Parse env rest = Inr (outp, dirp, frc, False) \<and> dirp = []"
    using that by (intro allI early) (simp add: Run_prefix_def)
  have c': "\<forall>sched. Run env d sched (prog # rest) =
         (if sched = []
          then Some (Inr (early_return d [''output directory path is required.\<newline>'']
                            ExitCodeError))
          else None)"
    if "flags_Parse env rest = Inr (outp, dirp, frc, False) \<and> dirp \<noteq> [] \<and> outp = []"
    using that by (intro allI early) (simp add: Run_prefix_def)
  have e: "\<forall>sched. Run env d sched (prog # rest) =
         (if sched = []
          then Some (Inr (early_return d [''fatal error '' @ err @ ''.\<newline>''] ExitCodeError))
          else None)"
    if "flags_Parse env rest = Inr (outp, dirp, frc, False) \<and> dirp \<noteq> [] \<and> outp \<noteq> [] \<and>
        images_Asset env MaskImage = Inl err"
    using that by (intro allI early) (simp add: Run_prefix_def loadMaskImage_def)
  have f: "\<forall>sched. Run env d sched (prog # rest) = (if sched = [] then Some (Inl err) else None)"
    if "flags_Parse env rest = Inr (outp, dirp, frc, False) \<and> dirp \<noteq> [] \<and> outp \<noteq> [] \<and>
        snd (loadMaskImage env MaskImage) = None \<and>
        ioutil_ReadDir env d (addDirectorySuffix dirp) = Inl err"
    using that
    by (cases "loadMaskImage env MaskImage")
       (simp add: Run_def Run_prefix_def readImagePaths_def)
  have g: "goroutines (early_return d written code :: ('a, 'b) state) = [] \<and>
           fs (early_return d written code :: ('a, 'b) state) = d \<and>
           returned (early_return d written code :: ('a, 'b) state) = Some code"
    by (simp add: early_return_def)
  from a b c c' e f g show ?thesis by blast
qed

text \<open>The five conditions in the concrete world: an undefined flag, no flag at all, no
  output directory, a missing asset, and an input directory that does not exist.\<close>

theorem fatal_conditions_witness:
  "flags_Parse d_env [''-x''] = Inl ''flag provided but not defined: -x'' \<and>
   Run d_env d_fs [] [''lgtmgen'', ''-x''] =
     Some (Inr (early_return d_fs [''flag provided but not defined: -x''] 2)) \<and>
   flags_Parse d_env [] = Inr ([], [], False, False) \<and>
   Run d_env d_fs [] [''lgtmgen''] =
     Some (Inr (early_return d_fs [''input directory path is required.\<newline>''] 2)) \<and>
   flags_Parse d_env [''-d'', ''in''] = Inr ([], ''in'', False, False) \<and>
   Run d_env d_fs [] [''lgtmgen'', ''-d'', ''in''] =
     Some (Inr (early_return d_fs [''output directory path is required.\<newline>''] 2)) \<and>
   images_Asset d_env_no_asset MaskImage = Inl ''Asset images/lgtm_mask.png not found'' \<and>
   Run d_env_no_asset d_fs [] d_args =
     Some (Inr (early_return d_fs
                  [''fatal error Asset images/lgtm_mask.png not found.\<newline>''] 2)) \<and>
   ioutil_ReadDir d_env d_fs (addDirectorySuffix ''nowhere'') =
     Inl ''open nowhere/: cannot read directory'' \<and>
   Run d_env d_fs [] [''lgtmgen'', ''-d'', ''nowhere'', ''-o'', ''out''] =
     Some (Inl ''open nowhere/: cannot read directory'')"
proof -
  have p1: "flags_Parse d_env [''-x''] = Inl ''flag provided but not defined: -x''"
    by (simp add: d_defs)
  have p2: "flags_Parse d_env [] = Inr ([], [], False, False)"
    by (simp add: d_defs)
  have p3: "flags_Parse d_env [''-d'', ''in''] = Inr ([], ''in'', False, False)"
    by (simp add: d_defs)
  have p4: "flags_Parse d_env_no_asset (tl d_args) = Inr (''out'', ''in'', False, False)"
    and a4: "images_Asset d_env_no_asset MaskImage = Inl ''Asset images/lgtm_mask.png not found''"
    by (simp_all add: d_defs d_args_def d_env_no_asset_def MaskImage_def)
  have p5: "flags_Parse d_env [''-d'', ''nowhere'', ''-o'', ''out'']
              = Inr (''out'', ''nowhere'', False, False)"
    and m5: "snd (loadMaskImage d_env MaskImage) = None"
    and r5: "ioutil_ReadDir d_env d_fs (addDirectorySuffix ''nowhere'') =
               Inl ''open nowhere/: cannot read directory''"
    by (simp_all add: d_defs run_defs)
  note t = fatal_conditions[where d = d_fs and prog = "''lgtmgen''" and written = "[]"
             and code = 0 and printed = "''flag provided but not defined: -x''"]
  have c: "ExitCodeError = 2"
    by (rule t[of d_env "[]" "[]" "[]" False "[]", THEN conjunct1])
  have "\<forall>sched. Run d_env d_fs sched [''lgtmgen'', ''-x''] =
          (if sched = []
           then Some (Inr (early_return d_fs [''flag provided but not defined: -x''] ExitCodeError))
           else None)"
    using t[of d_env "[''-x'']" "[]" "[]" False "[]"] p1 by blast
  from this[rule_format, of "[]"] c
  have r1: "Run d_env d_fs [] [''lgtmgen'', ''-x''] =
          Some (Inr (early_return d_fs [''flag provided but not defined: -x''] 2))"
    by simp
  have "\<forall>sched. Run d_env d_fs sched [''lgtmgen''] =
          (if sched = []
           then Some (Inr (early_return d_fs [''input directory path is required.\<newline>'']
                             ExitCodeError))
           else None)"
    using t[of d_env "[]" "[]" "[]" False "[]"] p2 by blast
  from this[rule_format, of "[]"] c
  have r2: "Run d_env d_fs [] [''lgtmgen''] =
     Some (Inr (early_return d_fs [''input directory path is required.\<newline>''] 2))"
    by simp
  have "\<forall>sched. Run d_env d_fs sched [''lgtmgen'', ''-d'', ''in''] =
          (if sched = []
           then Some (Inr (early_return d_fs [''output directory path is required.\<newline>'']
                             ExitCodeError))
           else None)"
    using t[of d_env "[''-d'', ''in'']" "[]" "''in''" False "[]"] p3 by blast
  from this[rule_format, of "[]"] c
  have r3: "Run d_env d_fs [] [''lgtmgen'', ''-d'', ''in''] =
     Some (Inr (early_return d_fs [''output directory path is required.\<newline>''] 2))"
    by simp
  have "\<forall>sched. Run d_env_no_asset d_fs sched (''lgtmgen'' # tl d_args) =
          (if sched = []
           then Some (Inr (early_return d_fs
                  [''fatal error '' @ ''Asset images/lgtm_mask.png not found'' @ ''.\<newline>'']
                  ExitCodeError))
           else None)"
    using t[of d_env_no_asset "tl d_args" "''out''" "''in''" False
               "''Asset images/lgtm_mask.png not found''"] p4 a4 by blast
  from this[rule_format, of "[]"] c
  have r4: "Run d_env_no_asset d_fs [] d_args =
     Some (Inr (early_return d_fs
                  [''fatal error Asset images/lgtm_mask.png not found.\<newline>''] 2))"
    by (simp add: d_args_def)
  have "\<forall>sched. Run d_env d_fs sched [''lgtmgen'', ''-d'', ''nowhere'', ''-o'', ''out''] =
          (if sched = [] then Some (Inl ''open nowhere/: cannot read directory'') else None)"
    using t[of d_env "[''-d'', ''nowhere'', ''-o'', ''out'']" "''out''" "''nowhere''" False
               "''open nowhere/: cannot read directory''"] p5 m5 r5 by blast
  from this[rule_format, of "[]"]
  have r5': "Run d_env d_fs [] [''lgtmgen'', ''-d'', ''nowhere'', ''-o'', ''out''] =
     Some (Inl ''open nowhere/: cannot read directory'')"
    by simp
  from r1 r2 r3 r4 r5' p1 p2 p3 a4 r5 show ?thesis by blast
qed

text \<open>With no flag at all \<^verbatim>\<open>Run\<close> returns 2, not 1.\<close>

theorem fatal_conditions_counterexample:
  "Run d_env d_fs [] [''lgtmgen''] =
     Some (Inr (early_return d_fs [''input directory path is required.\<newline>''] 2)) \<and>
   returned (early_return d_fs [''input directory path is required.\<newline>''] 2 :: (dfs, string) state)
     \<noteq> Some 1"
  by (simp add: d_defs run_defs)

subsection \<open>Exit code of a run that starts\<close>

text \<open>
  Claim C2. When initialization succeeds, that is the flags parse without \<^verbatim>\<open>-version\<close>,
  both directories are given, the mask is loaded and the input directory is listed,
  \<^verbatim>\<open>Run\<close> returns the exit code 0 after all goroutines have finished, whatever the
  goroutines did: some schedule makes \<^verbatim>\<open>Run\<close> return 0; no execution is longer than six
  steps per listed file plus one, and none panics; an execution in which no thread can move
  any more has returned 0; and whenever \<^verbatim>\<open>Run\<close> has returned, it has returned 0, every
  goroutine has finished, and there is one goroutine per listed file.
\<close>

theorem Run_returns_ExitCodeOK:
  assumes parse: "flags_Parse env rest = Inr (outp, dirp, frc, False)"
    and dir: "dirp \<noteq> []" and out: "outp \<noteq> []"
    and mask: "loadMaskImage env MaskImage = (Some m, None)"
    and listing: "ioutil_ReadDir env d (addDirectorySuffix dirp) = Inr files"
  shows "(\<exists>sched s. Run env d sched (prog # rest) = Some (Inr s) \<and> returned s = Some 0) \<and>
         (\<forall>sched r. Run env d sched (prog # rest) = Some r \<longrightarrow>
            (\<exists>s. r = Inr s \<and>
                 length sched \<le> 6 * length (filter (\<lambda>fileInfo. \<not> fi_IsDir fileInfo) files) + 1 \<and>
                 (final env s \<longrightarrow> returned s = Some 0) \<and>
                 (returned s \<noteq> None \<longrightarrow>
                    returned s = Some 0 \<and> list_all (\<lambda>g. pc g = Finished) (goroutines s) \<and>
                    length (goroutines s) = length (filter (\<lambda>fileInfo. \<not> fi_IsDir fileInfo) files))))"
proof -
  define s0 :: "('a, 'b) state" where
    "s0 = \<lparr>output_dir = addDirectorySuffix outp, force = frc, maskImage = Some m,
           unvisited = map (\<lambda>fileInfo. addDirectorySuffix dirp @ fi_Name fileInfo)
                         (filter (\<lambda>fileInfo. \<not> fi_IsDir fileInfo) files),
           goroutines = [], wg = 0, fs = d, errStream = [], stdout = [], returned = None\<rparr>"
  have pre: "Run_prefix env d (prog # rest) = Inr s0"
    unfolding s0_def by (rule Run_prefix_started[OF parse dir out mask listing])
  have inv0: "run_inv s0 s0" by (rule run_inv_start) (simp_all add: s0_def)
  have b0: "budget s0 = 6 * length (filter (\<lambda>fileInfo. \<not> fi_IsDir fileInfo) files) + 1"
    by (simp add: budget_def s0_def)
  have n0: "length (unvisited s0) = length (filter (\<lambda>fileInfo. \<not> fi_IsDir fileInfo) files)"
    by (simp add: s0_def)
  have first: "\<exists>sched s. Run env d sched (prog # rest) = Some (Inr s) \<and> returned s = Some 0"
  proof -
    from can_return[OF inv0, of env] obtain sched s
      where e: "exec env sched s0 = Some s" and r: "returned s \<noteq> None" by blast
    from exec_inv[OF inv0 e] r have "returned s = Some 0"
      by (auto simp: run_inv_def ExitCodeOK_def)
    with e pre have "Run env d sched (prog # rest) = Some (Inr s) \<and> returned s = Some 0"
      by (simp add: Run_def)
    then show ?thesis by blast
  qed
  have second: "\<exists>s. r = Inr s \<and>
                 length sched \<le> 6 * length (filter (\<lambda>fileInfo. \<not> fi_IsDir fileInfo) files) + 1 \<and>
                 (final env s \<longrightarrow> returned s = Some 0) \<and>
                 (returned s \<noteq> None \<longrightarrow>
                    returned s = Some 0 \<and> list_all (\<lambda>g. pc g = Finished) (goroutines s) \<and>
                    length (goroutines s) = length (filter (\<lambda>fileInfo. \<not> fi_IsDir fileInfo) files))"
    if run: "Run env d sched (prog # rest) = Some r" for sched r
  proof -
    from run pre obtain s where r: "r = Inr s" and e: "exec env sched s0 = Some s"
      by (auto simp: Run_def)
    note inv = exec_inv[OF inv0 e]
    from exec_budget[OF e] b0
    have len: "length sched \<le> 6 * length (filter (\<lambda>fileInfo. \<not> fi_IsDir fileInfo) files) + 1"
      by simp
    have fin: "final env s \<longrightarrow> returned s = Some 0"
      using final_returned[OF inv] by (simp add: ExitCodeOK_def)
    have ret: "returned s = Some 0 \<and> list_all (\<lambda>g. pc g = Finished) (goroutines s) \<and>
               length (goroutines s) = length (filter (\<lambda>fileInfo. \<not> fi_IsDir fileInfo) files)"
      if "returned s \<noteq> None"
    proof -
      from returned_all_finished[OF inv that]
      have a: "list_all (\<lambda>g. pc g = Finished) (goroutines s)"
        and b: "map filePath (goroutines s) = unvisited s0" by simp_all
      from b have "length (goroutines s) = length (unvisited s0)"
        by (metis length_map)
      with a n0 inv that show ?thesis by (auto simp: run_inv_def ExitCodeOK_def)
    qed
    from r len fin ret show ?thesis by blast
  qed
  from first second show ?thesis by blast
qed

text \<open>The scenario satisfies the hypotheses, and \<^verbatim>\<open>Run\<close> returns 0 on it.\<close>

theorem Run_returns_ExitCodeOK_witness:
  "flags_Parse d_env [''-d'', ''in'', ''-o'', ''out''] = Inr (''out'', ''in'', False, False) \<and>
   loadMaskImage d_env MaskImage = (Some ''LGTM'', None) \<and>
   ioutil_ReadDir d_env d_fs (addDirectorySuffix ''in'') =
     Inr [\<lparr>fi_Name = ''a.png'', fi_IsDir = False\<rparr>, \<lparr>fi_Name = ''b.png'', fi_IsDir = False\<rparr>,
          \<lparr>fi_Name = ''c.txt'', fi_IsDir = False\<rparr>, \<lparr>fi_Name = ''sub'', fi_IsDir = True\<rparr>] \<and>
   (\<exists>sched s. Run d_env d_fs sched [''lgtmgen'', ''-d'', ''in'', ''-o'', ''out''] = Some (Inr s) \<and>
      returned s = Some 0)"
proof -
  have h1: "flags_Parse d_env [''-d'', ''in'', ''-o'', ''out''] = Inr (''out'', ''in'', False, False)"
    by (simp add: d_defs)
  have h2: "loadMaskImage d_env MaskImage = (Some ''LGTM'', None)"
    by (simp add: d_defs run_defs)
  have h3: "ioutil_ReadDir d_env d_fs (addDirectorySuffix ''in'') =
     Inr [\<lparr>fi_Name = ''a.png'', fi_IsDir = False\<rparr>, \<lparr>fi_Name = ''b.png'', fi_IsDir = False\<rparr>,
          \<lparr>fi_Name = ''c.txt'', fi_IsDir = False\<rparr>, \<lparr>fi_Name = ''sub'', fi_IsDir = True\<rparr>]"
    by (simp add: d_defs run_defs)
  from Run_returns_ExitCodeOK[OF h1 _ _ h2 h3, of "''lgtmgen''"] h1 h2 h3
  show ?thesis by simp
qed

subsection \<open>A mask that cannot be decoded\<close>

text \<open>
  Claim C3 on a bundled asset that is present and is no image: \<^verbatim>\<open>image.Decode\<close> fails,
  \<^verbatim>\<open>loadMaskImage\<close> returns a nil image with a nil error, and \<^verbatim>\<open>Run\<close> goes on with a nil
  mask: after one step of the main thread the first goroutine is started.
\<close>

theorem loadMaskImage_drops_decode_error:
  "images_Asset d_env_corrupt MaskImage = Inr ''<html>no image</html>'' \<and>
   image_Decode d_env_corrupt ''<html>no image</html>'' = Inl ''image: unknown format'' \<and>
   loadMaskImage d_env_corrupt MaskImage = (None, None) \<and>
   Run d_env_corrupt d_fs [Main] d_args =
     Some (Inr \<lparr>output_dir = ''out/'', force = False, maskImage = None,
                unvisited = [''in/b.png'', ''in/c.txt''],
                goroutines =
                  [\<lparr>filePath = ''in/a.png'', pc = L122, maskedImage = None, mask_err = None,
                    outputFilePath = [], save_err = None\<rparr>],
                wg = 1, fs = d_fs, errStream = [], stdout = [], returned = None\<rparr>)"
  by (simp add: d_defs run_defs d_args_def d_env_corrupt_def)

subsection \<open>The line printed when saving fails\<close>

text \<open>
  Claim C4 on an image whose output name has an extension that \<^verbatim>\<open>imaging.Save\<close> does not
  know: \<^verbatim>\<open>save_err\<close> is the error of \<^verbatim>\<open>imaging.Save\<close>, and the line on the error
  stream is built from \<^verbatim>\<open>mask_err\<close>, which is nil there, so it reads
  \<^verbatim>\<open>[%!s(<nil>)] in/photo.dat\<close> and does not name the error.
\<close>

theorem save_error_line_prints_mask_err:
  "Run d_env d_fs_photo
     [Main, Goroutine 0, Goroutine 0, Goroutine 0, Goroutine 0, Goroutine 0, Main] d_args =
     Some (Inr \<lparr>output_dir = ''out/'', force = False, maskImage = Some ''LGTM'', unvisited = [],
                goroutines =
                  [\<lparr>filePath = ''in/photo.dat'', pc = Finished, maskedImage = Some ''P+LGTM'',
                    mask_err = None, outputFilePath = ''out/photo.dat'',
                    save_err = Some ''imaging: unsupported image format''\<rparr>],
                wg = 0, fs = d_fs_photo, errStream = [''[%!s(<nil>)] in/photo.dat\<newline>''],
                stdout = [], returned = Some 0\<rparr>)"
  by (simp add: d_defs run_defs d_args_def d_fs_photo_def)

subsection \<open>The overwrite guard\<close>




subsection \<open>Enumeration and dispatch\<close>

text \<open>
  Claim C6. \<^verbatim>\<open>readImagePaths\<close> returns, in the order of the listing, the directory path
  followed by the name of every entry that is not a directory, and nothing else. In every
  state of an execution of \<^verbatim>\<open>Run\<close> that reached the loop, the source paths of the
  goroutines started so far, followed by the paths not yet visited, are that list; once
  \<^verbatim>\<open>Run\<close> has returned, the goroutines correspond one to one to the list, and their
  number is the number of entries that are not directories.
\<close>

theorem enumeration_and_dispatch:
  assumes parse: "flags_Parse env rest = Inr (outp, dirp, frc, ver)"
    and listing: "ioutil_ReadDir env d (addDirectorySuffix dirp) = Inr files"
    and pre: "Run_prefix env d (prog # rest) = Inr s0" and started: "returned s0 = None"
    and run: "Run env d sched (prog # rest) = Some (Inr s)"
  shows "readImagePaths env d (addDirectorySuffix dirp) =
           Inr (map (\<lambda>fileInfo. addDirectorySuffix dirp @ fi_Name fileInfo)
                  (filter (\<lambda>fileInfo. \<not> fi_IsDir fileInfo) files)) \<and>
         map filePath (goroutines s) @ unvisited s =
           map (\<lambda>fileInfo. addDirectorySuffix dirp @ fi_Name fileInfo)
             (filter (\<lambda>fileInfo. \<not> fi_IsDir fileInfo) files) \<and>
         (returned s \<noteq> None \<longrightarrow>
            map filePath (goroutines s) =
              map (\<lambda>fileInfo. addDirectorySuffix dirp @ fi_Name fileInfo)
                (filter (\<lambda>fileInfo. \<not> fi_IsDir fileInfo) files) \<and>
            length (goroutines s) = length (filter (\<lambda>fileInfo. \<not> fi_IsDir fileInfo) files))"
proof -
  let ?paths = "map (\<lambda>fileInfo. addDirectorySuffix dirp @ fi_Name fileInfo)
                  (filter (\<lambda>fileInfo. \<not> fi_IsDir fileInfo) files)"
  have enum: "readImagePaths env d (addDirectorySuffix dirp) = Inr ?paths"
    using listing by (simp add: readImagePaths_def)
  from Run_prefix_startedD[OF pre started parse] enum
  have u0: "unvisited s0 = ?paths" and g0: "goroutines s0 = []" "wg s0 = 0"
    by auto
  from g0 started have inv0: "run_inv s0 s0" by (simp add: run_inv_start)
  from pre run have e: "exec env sched s0 = Some s" by (auto simp: Run_def)
  note inv = exec_inv[OF inv0 e]
  from inv u0 have a: "map filePath (goroutines s) @ unvisited s = ?paths"
    by (simp add: run_inv_def)
  have b: "map filePath (goroutines s) = ?paths \<and>
           length (goroutines s) = length (filter (\<lambda>fileInfo. \<not> fi_IsDir fileInfo) files)"
    if "returned s \<noteq> None"
  proof -
    from returned_all_finished[OF inv that] u0
    have m: "map filePath (goroutines s) = ?paths" by simp
    from arg_cong[OF m, of length]
    have "length (goroutines s) = length (filter (\<lambda>fileInfo. \<not> fi_IsDir fileInfo) files)"
      by (simp only: length_map)
    with m show ?thesis by simp
  qed
  from enum a b show ?thesis by blast
qed

text \<open>The scenario: four entries, one of them a directory, three goroutines.\<close>

theorem enumeration_and_dispatch_witness:
  "ioutil_ReadDir d_env d_fs (addDirectorySuffix ''in'') =
     Inr [\<lparr>fi_Name = ''a.png'', fi_IsDir = False\<rparr>, \<lparr>fi_Name = ''b.png'', fi_IsDir = False\<rparr>,
          \<lparr>fi_Name = ''c.txt'', fi_IsDir = False\<rparr>, \<lparr>fi_Name = ''sub'', fi_IsDir = True\<rparr>] \<and>
   readImagePaths d_env d_fs (addDirectorySuffix ''in'') =
     Inr [''in/a.png'', ''in/b.png'', ''in/c.txt''] \<and>
   Run d_env d_fs d_schedule d_args = Some (Inr d_finished) \<and>
   map filePath (goroutines d_finished) = [''in/a.png'', ''in/b.png'', ''in/c.txt''] \<and>
   length (goroutines d_finished) = 3"
proof -
  have started: "returned d_loop_start = None" and ret: "returned d_finished \<noteq> None"
    by (simp_all add: d_loop_start_def d_finished_def)
  have run: "Run d_env d_fs d_schedule (''lgtmgen'' # tl d_args) = Some (Inr d_finished)"
    and pre: "Run_prefix d_env d_fs (''lgtmgen'' # tl d_args) = Inr d_loop_start"
    using d_Run_finished d_Run_prefix by (simp_all add: d_args_def)
  from enumeration_and_dispatch[OF d_parse d_listing pre started run] ret
  have "readImagePaths d_env d_fs (addDirectorySuffix ''in'') =
          Inr [''in/a.png'', ''in/b.png'', ''in/c.txt'']"
    and "map filePath (goroutines d_finished) = [''in/a.png'', ''in/b.png'', ''in/c.txt'']"
    and "length (goroutines d_finished) = 3"
    by (simp_all add: addDirectorySuffix_def HasSuffix_def)
  with d_listing d_Run_finished show ?thesis by blast
qed

subsection \<open>Destination paths\<close>

text \<open>
  Claim C7, as the code has it. In every state of every execution of \<^verbatim>\<open>Run\<close>, a
  goroutine that has passed \<^verbatim>\<open>overlayImage\<close> without error has as destination the output
  directory of the command line, followed by a slash unless it already ends in one,
  followed by \<^verbatim>\<open>filepath.Base\<close> of its source path. That prefix always ends in a slash;
  slashes already there are kept. The destination depends on the output directory and the
  source path only: not on the schedule, the file system or the other flags.
\<close>

theorem destination_path:
  assumes parse: "flags_Parse env rest = Inr (outp, dirp, frc, ver)"
    and run: "Run env d sched (prog # rest) = Some (Inr s)"
    and g: "g \<in> set (goroutines s)" and past: "pc g \<noteq> L122" and ok: "mask_err g = None"
  shows "outputFilePath g =
           (if HasSuffix outp ''/'' then outp else outp @ ''/'') @ filepath_Base (filePath g) \<and>
         HasSuffix (if HasSuffix outp ''/'' then outp else outp @ ''/'') ''/''"
proof -
  from run obtain s0 where pre: "Run_prefix env d (prog # rest) = Inr s0"
    and e: "exec env sched s0 = Some s"
    by (auto simp: Run_def split: sum.splits if_splits)
  note shape = Run_prefix_shape[OF pre]
  have started: "returned s0 = None"
  proof (rule ccontr)
    assume "returned s0 \<noteq> None"
    with shape e have "s = s0" using exec_nothing_started[of s0 env sched s] by simp
    with shape g show False by simp
  qed
  from Run_prefix_startedD[OF pre started parse]
  have out: "output_dir s0 = addDirectorySuffix outp" by auto
  from shape started have inv0: "run_inv s0 s0" by (simp add: run_inv_start)
  from exec_inv[OF inv0 e] g have "dest_ok (output_dir s0) g"
    by (auto simp: run_inv_def list_all_iff)
  with past ok out
  have "outputFilePath g = addDirectorySuffix outp @ filepath_Base (filePath g)"
    by (simp add: dest_ok_def)
  moreover have "HasSuffix (if HasSuffix outp ''/'' then outp else outp @ ''/'') ''/''"
    by (simp add: HasSuffix_def)
  ultimately show ?thesis by (simp add: addDirectorySuffix_def)
qed

text \<open>The first goroutine of the scenario.\<close>

theorem destination_path_witness:
  "flags_Parse d_env (tl d_args) = Inr (''out'', ''in'', False, False) \<and>
   Run d_env d_fs d_schedule d_args = Some (Inr d_finished) \<and>
   pc (goroutines d_finished ! 0) = Finished \<and>
   mask_err (goroutines d_finished ! 0) = None \<and>
   filePath (goroutines d_finished ! 0) = ''in/a.png'' \<and>
   outputFilePath (goroutines d_finished ! 0) = ''out/a.png''"
proof -
  have g: "goroutines d_finished ! 0 \<in> set (goroutines d_finished)"
    and past: "pc (goroutines d_finished ! 0) \<noteq> L122"
    and fin: "pc (goroutines d_finished ! 0) = Finished"
    and ok: "mask_err (goroutines d_finished ! 0) = None"
    and src: "filePath (goroutines d_finished ! 0) = ''in/a.png''"
    by (simp_all add: d_finished_def)
  have run: "Run d_env d_fs d_schedule (''lgtmgen'' # tl d_args) = Some (Inr d_finished)"
    using d_Run_finished by (simp add: d_args_def)
  from destination_path[OF d_parse run g past ok] src
  have "outputFilePath (goroutines d_finished ! 0) = ''out/a.png''"
    by (simp add: HasSuffix_def filepath_Base_def IsPathSeparator_def)
  with d_parse d_Run_finished fin ok src show ?thesis by blast
qed

text \<open>An output directory given as \<^verbatim>\<open>out//\<close> is kept, and the destination of
  \<^verbatim>\<open>in/a.png\<close> is \<^verbatim>\<open>out//a.png\<close>.\<close>

theorem destination_path_counterexample:
  "addDirectorySuffix ''out//'' = ''out//'' \<and>
   Run d_env d_fs [Main, Goroutine 0] [''lgtmgen'', ''-d'', ''in'', ''-o'', ''out//''] =
     Some (Inr \<lparr>output_dir = ''out//'', force = False, maskImage = Some ''LGTM'',
                unvisited = [''in/b.png'', ''in/c.txt''],
                goroutines =
                  [\<lparr>filePath = ''in/a.png'', pc = L135, maskedImage = Some ''A+LGTM'',
                    mask_err = None, outputFilePath = ''out//a.png'', save_err = None\<rparr>],
                wg = 1, fs = d_fs, errStream = [], stdout = [], returned = None\<rparr>)"
  by (simp add: d_defs run_defs)

subsection \<open>The barrier\<close>

text \<open>
  Claim C8. \<^verbatim>\<open>Run\<close> does not return until every goroutine it started has executed its
  \<^verbatim>\<open>wg.Done()\<close>. In every state that an execution of \<^verbatim>\<open>Run\<close> reaches, the counter of the
  \<^verbatim>\<open>WaitGroup\<close> is the number of goroutines started and not finished, whatever their
  outcome; while it is not zero \<^verbatim>\<open>Run\<close> has not returned, and after the loop the main thread
  cannot move (it is blocked in \<^verbatim>\<open>wg.Wait()\<close>); once \<^verbatim>\<open>Run\<close> has returned, the counter is
  zero, every path has been dispatched and every goroutine has finished.
\<close>

theorem Run_waits_for_every_goroutine:
  assumes pre: "Run_prefix env d args = Inr s0"
    and run: "Run env d sched args = Some (Inr s)"
  shows "wg s = int (running (goroutines s)) \<and>
         map filePath (goroutines s) @ unvisited s = unvisited s0 \<and>
         (wg s \<noteq> 0 \<longrightarrow> returned s = returned s0 \<and> (unvisited s = [] \<longrightarrow> step env Main s = None)) \<and>
         (returned s \<noteq> None \<longrightarrow>
            unvisited s = [] \<and> wg s = 0 \<and> list_all (\<lambda>g. pc g = Finished) (goroutines s) \<and>
            length (goroutines s) = length (unvisited s0))"
proof -
  from pre run have e: "exec env sched s0 = Some s" by (auto simp: Run_def)
  note shape = Run_prefix_shape[OF pre]
  show ?thesis
  proof (cases "returned s0 = None")
    case False
    with shape e have "s = s0" using exec_nothing_started[of s0 env sched s] by simp
    with shape False show ?thesis by (simp add: running_def)
  next
    case True
    with shape have inv0: "run_inv s0 s0" by (simp add: run_inv_start)
    note inv = exec_inv[OF inv0 e]
    have a: "wg s = int (running (goroutines s))"
      and b: "map filePath (goroutines s) @ unvisited s = unvisited s0"
      using inv by (simp_all add: run_inv_def)
    have c: "returned s = returned s0 \<and> (unvisited s = [] \<longrightarrow> step env Main s = None)"
      if "wg s \<noteq> 0"
      using inv that True by (auto simp: run_inv_def step_def)
    have f: "unvisited s = [] \<and> wg s = 0 \<and> list_all (\<lambda>g. pc g = Finished) (goroutines s) \<and>
            length (goroutines s) = length (unvisited s0)"
      if "returned s \<noteq> None"
    proof -
      from returned_all_finished[OF inv that]
      have "unvisited s = []" "wg s = 0" "list_all (\<lambda>g. pc g = Finished) (goroutines s)"
        and m: "map filePath (goroutines s) = unvisited s0" by simp_all
      moreover from m have "length (goroutines s) = length (unvisited s0)" by (metis length_map)
      ultimately show ?thesis by simp
    qed
    from a b c f show ?thesis by blast
  qed
qed

text \<open>The scenario after the loop, with three goroutines running and the main thread
  blocked, and at its end.\<close>

theorem Run_waits_for_every_goroutine_witness:
  "Run_prefix d_env d_fs d_args = Inr d_loop_start \<and>
   Run d_env d_fs [Main, Main, Main] d_args = Some (Inr d_started) \<and>
   wg d_started = 3 \<and> running (goroutines d_started) = 3 \<and>
   returned d_started = None \<and> step d_env Main d_started = None \<and>
   Run d_env d_fs d_schedule d_args = Some (Inr d_finished) \<and>
   returned d_finished = Some 0 \<and>
   list_all (\<lambda>g. pc g = Finished) (goroutines d_finished) \<and>
   length (goroutines d_finished) = 3"
proof -
  from Run_waits_for_every_goroutine[OF d_Run_prefix d_Run_started]
  have "wg d_started = int (running (goroutines d_started))"
    and "wg d_started \<noteq> 0 \<longrightarrow>
           returned d_started = returned d_loop_start \<and>
           (unvisited d_started = [] \<longrightarrow> step d_env Main d_started = None)"
    by blast+
  moreover have "wg d_started = 3" "unvisited d_started = []" "returned d_loop_start = None"
    by (simp_all add: d_started_def d_loop_start_def)
  ultimately have a: "wg d_started = 3 \<and> running (goroutines d_started) = 3 \<and>
                      returned d_started = None \<and> step d_env Main d_started = None"
    by simp
  from Run_waits_for_every_goroutine[OF d_Run_prefix d_Run_finished]
  have "returned d_finished \<noteq> None \<longrightarrow>
          unvisited d_finished = [] \<and> wg d_finished = 0 \<and>
          list_all (\<lambda>g. pc g = Finished) (goroutines d_finished) \<and>
          length (goroutines d_finished) = length (unvisited d_loop_start)"
    by blast
  moreover have "returned d_finished = Some 0" "length (unvisited d_loop_start) = 3"
    by (simp_all add: d_finished_def d_loop_start_def)
  ultimately have b: "returned d_finished = Some 0 \<and>
                      list_all (\<lambda>g. pc g = Finished) (goroutines d_finished) \<and>
                      length (goroutines d_finished) = 3"
    by simp
  from a b d_Run_prefix d_Run_started d_Run_finished show ?thesis by blast
qed

subsection \<open>Running twice with \<^verbatim>\<open>-force\<close>\<close>

text \<open>
  Claim C9. Take the library calls on files as modelled above, a command line with
  \<^verbatim>\<open>-force\<close>, and a listing of the input directory with distinct, non-empty names that
  contain no slash. Let a first run start in the files \<open>d0\<close> and return in the state
  \<open>s1\<close>, and a second run start in the files the first one left, with the same listing and
  the same content of every input file, and return in \<open>s2\<close>, each under any schedule.
  Then the second run leaves every file as the first one left it: the output files are
  byte-identical.
\<close>

theorem force_twice_same_files:
  assumes lib: "file_library env encode"
    and parse: "flags_Parse env rest = Inr (outp, dirp, True, ver)"
    and listing1: "ioutil_ReadDir env d0 (addDirectorySuffix dirp) = Inr files"
    and dist: "distinct (map fi_Name files)"
    and names: "\<forall>f \<in> set files. fi_Name f \<noteq> [] \<and> CHR ''/'' \<notin> set (fi_Name f)"
    and run1: "Run env d0 sched1 (prog # rest) = Some (Inr s1)"
    and ret1: "returned s1 \<noteq> None"
    and listing2: "ioutil_ReadDir env (fs s1) (addDirectorySuffix dirp) = Inr files"
    and inputs: "\<forall>f \<in> set files. \<not> fi_IsDir f \<longrightarrow>
                   fs s1 (addDirectorySuffix dirp @ fi_Name f)
                     = d0 (addDirectorySuffix dirp @ fi_Name f)"
    and run2: "Run env (fs s1) sched2 (prog # rest) = Some (Inr s2)"
    and ret2: "returned s2 \<noteq> None"
  shows "fs s2 = fs s1"
proof -
  let ?dir = "addDirectorySuffix dirp" and ?out = "addDirectorySuffix outp"
  let ?P = "map (\<lambda>fileInfo. ?dir @ fi_Name fileInfo)
              (filter (\<lambda>fileInfo. \<not> fi_IsDir fileInfo) files)"
  from run1 obtain s0 where pre1: "Run_prefix env d0 (prog # rest) = Inr s0"
    and e1: "exec env sched1 s0 = Some s1"
    by (auto simp: Run_def split: sum.splits if_splits)
  from run2 obtain s0' where pre2: "Run_prefix env (fs s1) (prog # rest) = Inr s0'"
    and e2: "exec env sched2 s0' = Some s2"
    by (auto simp: Run_def split: sum.splits if_splits)
  note shape1 = Run_prefix_shape[OF pre1] and shape2 = Run_prefix_shape[OF pre2]
  show ?thesis
  proof (cases "returned s0 = None")
    case False
    with shape1 e1 have "s1 = s0" using exec_nothing_started[of s0 env sched1 s1] by simp
    with shape1 have same: "fs s1 = d0" by simp
    with pre1 pre2 have "s0' = s0" by simp
    with False shape1 e2 have "s2 = s0" using exec_nothing_started[of s0 env sched2 s2] by simp
    with \<open>s1 = s0\<close> show ?thesis by simp
  next
    case True
    from Run_prefix_startedD[OF pre1 True parse] listing1
    have flags: "\<not> ver" "dirp \<noteq> []" "outp \<noteq> []"
      and mask: "loadMaskImage env MaskImage = (fst (loadMaskImage env MaskImage), None)"
      and s0: "s0 = \<lparr>output_dir = ?out, force = True,
                  maskImage = fst (loadMaskImage env MaskImage), unvisited = ?P,
                  goroutines = [], wg = 0, fs = d0, errStream = [], stdout = [],
                  returned = None\<rparr>"
      by (auto simp: readImagePaths_def prod_eq_iff)
    from flags parse have parse': "flags_Parse env rest = Inr (outp, dirp, True, False)"
      by simp
    from Run_prefix_started[OF parse' flags(2,3) mask listing2] pre2
    have s0': "s0' = s0\<lparr>fs := fs s1\<rparr>" by (simp add: s0)
    let ?m = "fst (loadMaskImage env MaskImage)"
    have P1: "paths_ok (output_dir s0) (unvisited s0)"
      and P2: "paths_ok (output_dir s0') (unvisited s0')"
      using paths_ok_listing[OF dist names, of outp dirp] by (simp_all add: s0 s0')
    have inv1: "run_inv s0 s0" and inv2: "run_inv s0' s0'"
      by (rule run_inv_start; simp add: s0 s0')+
    have id1: "idem_inv env encode d0 s0" and id2: "idem_inv env encode (fs s1) s0'"
      using idem_inv_start[of s0 env encode] idem_inv_start[of s0' env encode]
      by (simp_all add: s0 s0')
    have sel: "unvisited s0 = ?P" "maskImage s0 = ?m" "output_dir s0 = ?out"
      "unvisited s0' = ?P" "maskImage s0' = ?m" "output_dir s0' = ?out"
      by (simp_all add: s0 s0')
    note f1 = idem_final[OF exec_inv[OF inv1 e1] idem_exec[OF lib P1 inv1 id1 e1] ret1,
                unfolded sel]
    note f2 = idem_final[OF exec_inv[OF inv2 e2] idem_exec[OF lib P2 inv2 id2 e2] ret2,
                unfolded sel]
    have k1: "fs s1 (?out @ filepath_Base p) = Some b"
      if "p \<in> set ?P" "written_bytes env encode d0 ?m ?out p = Some b" for p b
      using f1[THEN conjunct1] that by blast
    have k1': "fs s2 (?out @ filepath_Base p) = Some b"
      if "p \<in> set ?P" "written_bytes env encode (fs s1) ?m ?out p = Some b" for p b
      using f2[THEN conjunct1] that by blast
    have k2': "fs s2 q = fs s1 q"
      if "\<forall>p \<in> set ?P. written_bytes env encode (fs s1) ?m ?out p \<noteq> None \<longrightarrow>
                        ?out @ filepath_Base p \<noteq> q" for q
      using f2[THEN conjunct2] that by blast
    have wb: "written_bytes env encode (fs s1) ?m ?out p = written_bytes env encode d0 ?m ?out p"
      if "p \<in> set ?P" for p
    proof -
      from that inputs have "fs s1 p = d0 p" by auto
      from written_bytes_same_file[where f = "fs s1" and f' = d0 and p = p, OF lib this]
      show ?thesis .
    qed
    show ?thesis
    proof (rule ext)
      fix q
      show "fs s2 q = fs s1 q"
      proof (cases "\<exists>p \<in> set ?P. written_bytes env encode (fs s1) ?m ?out p \<noteq> None \<and>
                       ?out @ filepath_Base p = q")
        case True
        then obtain p b where p: "p \<in> set ?P"
          and b: "written_bytes env encode (fs s1) ?m ?out p = Some b"
          and q: "?out @ filepath_Base p = q" by blast
        from b wb[OF p] have b0: "written_bytes env encode d0 ?m ?out p = Some b" by simp
        from k1'[OF p b] k1[OF p b0] q show ?thesis by simp
      next
        case False
        then show ?thesis by (intro k2') blast
      qed
    qed
  qed
qed

text \<open>Two runs over two images under different schedules: the lines on the standard
  output come in a different order, the files are the same.\<close>

theorem force_twice_same_files_witness:
  "file_library m_env m_encode \<and>
   flags_Parse m_env (tl m_args) = Inr (''out'', ''in'', True, False) \<and>
   Run m_env m_fs m_schedule1 m_args = Some (Inr m_once) \<and>
   Run m_env (fs m_once) m_schedule2 m_args = Some (Inr m_twice) \<and>
   fs m_once ''in/a.png'' = m_fs ''in/a.png'' \<and> fs m_once ''in/b.png'' = m_fs ''in/b.png'' \<and>
   stdout m_twice \<noteq> stdout m_once \<and>
   fs m_twice = fs m_once"
proof -
  let ?files = "[\<lparr>fi_Name = ''a.png'', fi_IsDir = False\<rparr>, \<lparr>fi_Name = ''b.png'', fi_IsDir = False\<rparr>,
                 \<lparr>fi_Name = ''sub'', fi_IsDir = True\<rparr>]"
  have parse: "flags_Parse m_env (tl m_args) = Inr (''out'', ''in'', True, False)"
    by (simp add: d_defs m_env_def m_args_def)
  have l1: "ioutil_ReadDir m_env m_fs (addDirectorySuffix ''in'') = Inr ?files"
    and l2: "ioutil_ReadDir m_env (fs m_once) (addDirectorySuffix ''in'') = Inr ?files"
    by (simp_all add: m_env_def addDirectorySuffix_def HasSuffix_def)
  have dist: "distinct (map fi_Name ?files)"
    and names: "\<forall>f \<in> set ?files. fi_Name f \<noteq> [] \<and> CHR ''/'' \<notin> set (fi_Name f)"
    by simp_all
  have r1: "Run m_env m_fs m_schedule1 (''lgtmgen'' # tl m_args) = Some (Inr m_once)"
    and r2: "Run m_env (fs m_once) m_schedule2 (''lgtmgen'' # tl m_args) = Some (Inr m_twice)"
    using m_Run_once m_Run_twice by (simp_all add: m_args_def)
  have ret: "returned m_once \<noteq> None" "returned m_twice \<noteq> None"
    and out: "stdout m_twice \<noteq> stdout m_once"
    by (simp_all add: m_once_def m_twice_def)
  have a: "fs m_once ''in/a.png'' = m_fs ''in/a.png''" and b: "fs m_once ''in/b.png'' = m_fs ''in/b.png''"
    by (simp_all add: m_once_def m_fs_def)
  then have inputs: "\<forall>f \<in> set ?files. \<not> fi_IsDir f \<longrightarrow>
                   fs m_once (addDirectorySuffix ''in'' @ fi_Name f)
                     = m_fs (addDirectorySuffix ''in'' @ fi_Name f)"
    by (simp add: addDirectorySuffix_def HasSuffix_def)
  from force_twice_same_files[OF m_file_library parse l1 dist names r1 ret(1) l2 inputs r2 ret(2)]
  have "fs m_twice = fs m_once" .
  with m_file_library parse m_Run_once m_Run_twice a b out show ?thesis by blast
qed

subsection \<open>What \<^verbatim>\<open>existFile\<close> reports\<close>

text \<open>
  Claim C10. \<^verbatim>\<open>existFile\<close> holds exactly when \<^verbatim>\<open>os.Stat\<close> returns no error. So when
  \<^verbatim>\<open>os.Stat\<close> fails on the destination for any reason, and \<^verbatim>\<open>force\<close> is not set, a
  goroutine at the guard does not take the branch of an existing file: its next two steps
  are the test and the call of \<^verbatim>\<open>imaging.Save\<close> on the destination, and nothing is
  printed in between.
\<close>

theorem existFile_is_Stat_without_error:
  assumes i: "i < length (goroutines s)"
    and guard: "pc (goroutines s ! i) = L135"
    and stat: "os_Stat env (fs s) (outputFilePath (goroutines s ! i)) = Some err"
    and noforce: "\<not> force s"
  shows "(existFile env d p \<longleftrightarrow> os_Stat env d p = None) \<and>
         \<not> existFile env (fs s) (outputFilePath (goroutines s ! i)) \<and>
         (\<exists>s'. exec env [Goroutine i, Goroutine i] s = Some s' \<and>
            pc (goroutines s' ! i) \<in> {L141, L144} \<and>
            fs s' = snd (imaging_Save env (fs s) (maskedImage (goroutines s ! i))
                           (outputFilePath (goroutines s ! i))) \<and>
            save_err (goroutines s' ! i) =
              fst (imaging_Save env (fs s) (maskedImage (goroutines s ! i))
                     (outputFilePath (goroutines s ! i))) \<and>
            errStream s' = errStream s \<and> stdout s' = stdout s)"
proof -
  obtain e d' where sv: "imaging_Save env (fs s) (maskedImage (goroutines s ! i))
                           (outputFilePath (goroutines s ! i)) = (e, d')"
    by (cases "imaging_Save env (fs s) (maskedImage (goroutines s ! i))
                           (outputFilePath (goroutines s ! i))")
  with assms show ?thesis
    by (simp add: existFile_def step_def goroutine_step_def)
qed

text \<open>An output file that exists and whose \<^verbatim>\<open>stat\<close> is refused: the goroutine calls
  \<^verbatim>\<open>imaging.Save\<close>.\<close>

theorem existFile_is_Stat_without_error_witness:
  "Run d_env d_fs_denied [Main, Goroutine 0] d_args = Some (Inr d_at_guard) \<and>
   pc (goroutines d_at_guard ! 0) = L135 \<and>
   os_Stat d_env (fs d_at_guard) (outputFilePath (goroutines d_at_guard ! 0)) =
     Some ''stat out/a.png: permission denied'' \<and>
   \<not> force d_at_guard \<and>
   \<not> existFile d_env (fs d_at_guard) ''out/a.png'' \<and>
   (\<exists>s'. exec d_env [Goroutine 0, Goroutine 0] d_at_guard = Some s' \<and>
      fs s' = snd (imaging_Save d_env d_fs_denied (Some ''A+LGTM'') ''out/a.png'') \<and>
      save_err (goroutines s' ! 0) = Some ''open out/a.png: permission denied'')"
proof -
  have i: "0 < length (goroutines d_at_guard)"
    and at: "pc (goroutines d_at_guard ! 0) = L135"
    and stat: "os_Stat d_env (fs d_at_guard) (outputFilePath (goroutines d_at_guard ! 0)) =
                 Some ''stat out/a.png: permission denied''"
    and nf: "\<not> force d_at_guard"
    by (simp_all add: d_defs d_fs_denied_def d_at_guard_def)
  have v: "outputFilePath (goroutines d_at_guard ! 0) = ''out/a.png''"
    "maskedImage (goroutines d_at_guard ! 0) = Some ''A+LGTM''" "fs d_at_guard = d_fs_denied"
    "fst (imaging_Save d_env d_fs_denied (Some ''A+LGTM'') ''out/a.png'') =
       Some ''open out/a.png: permission denied''"
    by (simp_all add: d_defs d_fs_denied_def d_at_guard_def HasSuffix_def)
  from existFile_is_Stat_without_error[OF i at stat nf, of d_fs "''x''"] v
  have "\<not> existFile d_env (fs d_at_guard) ''out/a.png''"
    and "\<exists>s'. exec d_env [Goroutine 0, Goroutine 0] d_at_guard = Some s' \<and>
      fs s' = snd (imaging_Save d_env d_fs_denied (Some ''A+LGTM'') ''out/a.png'') \<and>
      save_err (goroutines s' ! 0) = Some ''open out/a.png: permission denied''"
    by auto
  with d_Run_at_guard at stat nf show ?thesis by blast
qed

end
